theory Spec2Isabelle
  imports Main "HOL-Library.Word" "HOL-Library.AList"
begin

section \<open>The IR seen by the lowering\<close>

text \<open>
  The pass of \<^verbatim>\<open>lmhlo_to_cpu_runtime.cc\<close> rewrites operations of a module. The host IR
  is kept as small as the lowering patterns need: types with a buffer (memref) case, SSA values
  that carry their type, attributes, operations with ordered operands, results and an attribute
  dictionary, functions made of blocks (the first block is the entry block), and a module.
\<close>

datatype element_ty = I1 | I8 | I32 | I64 | F32 | F64

text \<open>A memref layout: the identity, or any layout for which \<^verbatim>\<open>isIdentity()\<close> is false
  (strides and an offset, as a subview produces).\<close>

datatype layout = IdentityLayout | StridedLayout "int list" int

datatype ty =
    MemRefType "int list" element_ty layout
  | TensorType "int list" element_ty
  | ScalarType element_ty

fun isa_MemRefType :: "ty \<Rightarrow> bool" where
  "isa_MemRefType (MemRefType _ _ _) = True"
| "isa_MemRefType _ = False"

fun isIdentity :: "layout \<Rightarrow> bool" where
  "isIdentity IdentityLayout = True"
| "isIdentity (StridedLayout _ _) = False"

datatype val = Val (value_id: nat) (getType: ty)

record target_arg_mapping =
  getNumArgs :: "64 word"
  getNumResults :: "64 word"
  getArgsToTargetArgs :: "64 word list"
  getResultsToTargetResults :: "64 word list"

datatype attr =
    I32IntegerAttr "32 word"
  | I64IntegerAttr "64 word"
  | StringAttr string
  | DenseI32ArrayAttr "32 word list"
  | CustomCallTargetArgMappingAttr target_arg_mapping
  | OtherAttr string

text \<open>The six operation kinds the patterns match, the operations they create, and anything
  else. A \<^verbatim>\<open>func.call\<close> names its callee symbol.\<close>

datatype op_kind =
    CustomCallOp | InfeedOp | OutfeedOp | PartitionIdOp | ReplicaIdOp | AllReduceOp
  | CallOp string | AllocaOp | AllocOp | CopyOp | OtherOp string

record operation =
  opKind :: op_kind
  getOperands :: "val list"
  getResults :: "val list"
  getAttrs :: "(string \<times> attr) list"

record func_op =
  getName :: string
  getBlocks :: "operation list list"

record func_decl =
  declName :: string
  declInputs :: "ty list"
  declResults :: "ty list"

text \<open>The module: its functions, the declarations of the runtime intrinsics, and the number
  of the next SSA value a builder creates.\<close>

record module_op =
  funcs :: "func_op list"
  custom_calls :: "func_decl list"
  next_value :: nat

datatype error =
    IndexOutOfRange | NullAttribute | BadCast | EmptyRange | UseNotEmpty | ResultCountMismatch

datatype logical_result = success | failure

type_synonym pos = "nat \<times> nat \<times> nat"

type_synonym rewrite_result = "error + (logical_result \<times> module_op)"

section \<open>Builder and rewriter primitives\<close>

definition op_at :: "module_op \<Rightarrow> pos \<Rightarrow> operation option" where
  "op_at m p = (case p of (fi, bi, oi) \<Rightarrow>
     if fi < length (funcs m) \<and> bi < length (getBlocks (funcs m ! fi))
        \<and> oi < length (getBlocks (funcs m ! fi) ! bi)
     then Some (getBlocks (funcs m ! fi) ! bi ! oi) else None)"

definition map_block ::
  "nat \<Rightarrow> nat \<Rightarrow> (operation list \<Rightarrow> operation list) \<Rightarrow> module_op \<Rightarrow> module_op" where
  "map_block fi bi g m =
     m\<lparr>funcs := (funcs m)[fi := (funcs m ! fi)
        \<lparr>getBlocks := (getBlocks (funcs m ! fi))[bi := g (getBlocks (funcs m ! fi) ! bi)]\<rparr>]\<rparr>"

definition getAttr :: "operation \<Rightarrow> string \<Rightarrow> attr option" where
  "getAttr op name = map_of (getAttrs op) name"

definition setAttr :: "string \<Rightarrow> attr \<Rightarrow> operation \<Rightarrow> operation" where
  "setAttr name v op = op\<lparr>getAttrs := AList.update name v (getAttrs op)\<rparr>"

definition load_at :: "'a list \<Rightarrow> nat \<Rightarrow> error + 'a" where
  "load_at xs i = (if i < length xs then Inr (xs ! i) else Inl IndexOutOfRange)"

definition store_at :: "'a list \<Rightarrow> nat \<Rightarrow> 'a \<Rightarrow> error + 'a list" where
  "store_at xs i v = (if i < length xs then Inr (xs[i := v]) else Inl IndexOutOfRange)"

text \<open>
  Modelled from the spec: \<^verbatim>\<open>CustomCallDeclarations::GetOrCreate\<close> of
  \<^verbatim>\<open>custom_calls.h\<close>, which is not among the sources. The spec's registry looks up an
  existing declaration under the name and returns it unconditionally, without comparing
  signatures; when there is none it creates a declaration with the given signature and inserts
  it into the symbol table.
\<close>

definition GetOrCreate ::
  "module_op \<Rightarrow> string \<Rightarrow> ty list \<Rightarrow> ty list \<Rightarrow> func_decl \<times> module_op" where
  "GetOrCreate m target inputs res =
     (case find (\<lambda>d. declName d = target) (custom_calls m) of
        Some d \<Rightarrow> (d, m)
      | None \<Rightarrow>
          (let d = \<lparr>declName = target, declInputs = inputs, declResults = res\<rparr>
           in (d, m\<lparr>custom_calls := custom_calls m @ [d]\<rparr>)))"

text \<open>
  Modelled from the spec: \<^verbatim>\<open>AppendCustomCallAttrs\<close> of \<^verbatim>\<open>custom_calls.h\<close>, which is
  not among the sources: the listed attributes are attached to the call, in order.
\<close>

definition AppendCustomCallAttrs :: "(string \<times> attr) list \<Rightarrow> operation \<Rightarrow> operation" where
  "AppendCustomCallAttrs as call = fold (\<lambda>(name, v). setAttr name v) as call"

text \<open>
  \<^verbatim>\<open>replaceOpWithNewOp<func::CallOp>(op, callee, result_types, operands)\<close>: the call takes
  the place of \<open>op\<close> in its block. Every use of a result of \<open>op\<close> becomes a use of the
  corresponding result of the call; the model keeps the SSA names of the results, so no use
  has to be rewritten. The rewriter requires the two operations to have equally many results.
\<close>

definition new_call :: "string \<Rightarrow> val list \<Rightarrow> val list \<Rightarrow> operation" where
  "new_call callee res operands =
     \<lparr>opKind = CallOp callee, getOperands = operands, getResults = res, getAttrs = []\<rparr>"

definition replace_at :: "nat \<Rightarrow> operation list \<Rightarrow> operation list \<Rightarrow> operation list" where
  "replace_at oi news blk = take oi blk @ news @ drop (Suc oi) blk"

definition replaceOpWithNewCallOp ::
  "module_op \<Rightarrow> pos \<Rightarrow> operation \<Rightarrow> string \<Rightarrow> ty list \<Rightarrow> val list \<Rightarrow> error + module_op" where
  "replaceOpWithNewCallOp m p op callee result_types operands = (case p of (fi, bi, oi) \<Rightarrow>
     if length (getResults op) \<noteq> length result_types then Inl ResultCountMismatch
     else Inr (map_block fi bi
            (replace_at oi
               [new_call callee
                  (map2 (\<lambda>v t. Val (value_id v) t) (getResults op) result_types) operands]) m))"

section \<open>Infeed and outfeed\<close>

definition LowerXfeed :: "module_op \<Rightarrow> pos \<Rightarrow> operation \<Rightarrow> string \<Rightarrow> rewrite_result" where
  "LowerXfeed m p op call_target =
     (let operands = getOperands op;
          (callee, m1) = GetOrCreate m call_target (map getType operands) []
      in case replaceOpWithNewCallOp m1 p op (declName callee) [] operands of
           Inl e \<Rightarrow> Inl e
         | Inr m2 \<Rightarrow> Inr (success, m2))"

definition InfeedOpLowering :: "module_op \<Rightarrow> pos \<Rightarrow> operation \<Rightarrow> rewrite_result" where
  "InfeedOpLowering m p op = LowerXfeed m p op ''xla.cpu.infeed''"

definition OutfeedOpLowering :: "module_op \<Rightarrow> pos \<Rightarrow> operation \<Rightarrow> rewrite_result" where
  "OutfeedOpLowering m p op = LowerXfeed m p op ''xla.cpu.outfeed''"

section \<open>Partition and replica id\<close>

definition IdOpLowering :: "string \<Rightarrow> module_op \<Rightarrow> pos \<Rightarrow> operation \<Rightarrow> rewrite_result" where
  "IdOpLowering call_target m p op =
     (let (callee, m1) = GetOrCreate m call_target [] [ScalarType I32]
      in case replaceOpWithNewCallOp m1 p op (declName callee) [ScalarType I32] [] of
           Inl e \<Rightarrow> Inl e
         | Inr m2 \<Rightarrow> Inr (success, m2))"

section \<open>Generic custom call\<close>

definition hole_type :: ty where
  "hole_type = MemRefType [0] I8 IdentityLayout"

definition alloca_op :: "val \<Rightarrow> operation" where
  "alloca_op v = \<lparr>opKind = AllocaOp, getOperands = [], getResults = [v], getAttrs = []\<rparr>"

text \<open>The lambda of lines 97 to 102: under an insertion guard, a \<^verbatim>\<open>memref.alloca\<close> of type
  \<^verbatim>\<open>memref<0xi8>\<close> is created at the start of the entry block of the parent function.\<close>

definition create_hole :: "module_op \<Rightarrow> nat \<Rightarrow> val \<times> module_op" where
  "create_hole m fi =
     (let hole = Val (next_value m) hole_type
      in (hole, map_block fi 0 (\<lambda>blk. alloca_op hole # blk) (m\<lparr>next_value := Suc (next_value m)\<rparr>)))"

text \<open>The operand segments of \<^verbatim>\<open>lmhlo.custom_call\<close> (\<open>getArgs\<close> is segment 0,
  \<open>getOutput\<close> segment 1), read through \<^verbatim>\<open>operand_segment_sizes\<close>. The pattern reads
  entry 1 of the sizes first, so both entries exist where a segment is taken.\<close>

definition getODSOperands :: "nat \<Rightarrow> 32 word list \<Rightarrow> operation \<Rightarrow> val list" where
  "getODSOperands k segs op =
     take (unat (segs ! k)) (drop (sum_list (map unat (take k segs))) (getOperands op))"

text \<open>The two loops of lines 109 to 115: source value \<open>i\<close> is stored at index
  \<open>base + target\<close> (64-bit arithmetic, read as an unsigned index) of the operand vector.
  An index outside the vector, or outside the source range, is an error.\<close>

fun update_operands ::
  "64 word \<Rightarrow> 64 word list \<Rightarrow> val list \<Rightarrow> nat \<Rightarrow> val list \<Rightarrow> error + val list" where
  "update_operands base [] src i operands = Inr operands"
| "update_operands base (t # ts) src i operands =
     (case load_at src i of
        Inl e \<Rightarrow> Inl e
      | Inr v \<Rightarrow>
          (case store_at operands (unat (base + t)) v of
             Inl e \<Rightarrow> Inl e
           | Inr operands' \<Rightarrow> update_operands base ts src (Suc i) operands'))"

text \<open>The branch of lines 90 to 116 for an operation with a target-argument mapping: the hole
  is created, the operand vector gets \<open>num_args + num_results\<close> copies of it (the 64-bit sum
  read as a size), and the two loops store the source arguments and results.\<close>

definition map_target_args ::
  "module_op \<Rightarrow> nat \<Rightarrow> operation \<Rightarrow> 32 word list \<Rightarrow> target_arg_mapping
     \<Rightarrow> error + (val list \<times> module_op)" where
  "map_target_args m fi op segs mapping =
     (let num_args = getNumArgs mapping;
          num_results = getNumResults mapping;
          (hole, m1) = create_hole m fi;
          operands = replicate (unat (num_args + num_results)) hole
      in case update_operands 0 (getArgsToTargetArgs mapping) (getODSOperands 0 segs op) 0 operands of
           Inl e \<Rightarrow> Inl e
         | Inr operands1 \<Rightarrow>
             (case update_operands num_args (getResultsToTargetResults mapping)
                     (getODSOperands 1 segs op) 0 operands1 of
                Inl e \<Rightarrow> Inl e
              | Inr operands2 \<Rightarrow> Inr (operands2, m1)))"

definition update_op :: "pos \<Rightarrow> (operation \<Rightarrow> operation) \<Rightarrow> module_op \<Rightarrow> module_op" where
  "update_op p g m = (case p of (fi, bi, oi) \<Rightarrow>
     map_block fi bi (\<lambda>blk. blk[oi := g (blk ! oi)]) m)"

text \<open>The position of the matched operation after the hole has been put in front of the entry
  block.\<close>

definition shifted :: "pos \<Rightarrow> pos" where
  "shifted p = (case p of (fi, bi, oi) \<Rightarrow> (fi, bi, if bi = 0 then Suc oi else oi))"

text \<open>Lines 118 to 133: the callee is declared with the operand types and no results, the
  operation is replaced by the call, and the three attributes are attached. \<open>num_results\<close>
  is narrowed from 64 to 32 bits. An attribute that the source operation lacks cannot be
  put into the list.\<close>

definition emit_custom_call ::
  "module_op \<Rightarrow> pos \<Rightarrow> operation \<Rightarrow> val list \<Rightarrow> 64 word \<Rightarrow> rewrite_result" where
  "emit_custom_call m p op operands num_results =
     (let (callee, m1) = GetOrCreate m ''xla.cpu.custom_call'' (map getType operands) []
      in case getAttr op ''api_version'' of
           None \<Rightarrow> Inl NullAttribute
         | Some api_version \<Rightarrow>
             (case getAttr op ''call_target_name'' of
                None \<Rightarrow> Inl NullAttribute
              | Some call_target_name \<Rightarrow>
                  (case replaceOpWithNewCallOp m1 p op (declName callee) [] operands of
                     Inl e \<Rightarrow> Inl e
                   | Inr m2 \<Rightarrow>
                       Inr (success,
                         update_op p (AppendCustomCallAttrs
                           [(''num_results'', I32IntegerAttr (ucast num_results)),
                            (''api_version'', api_version),
                            (''call_target_name'', call_target_name)]) m2))))"

definition getTargetArgMapping :: "operation \<Rightarrow> target_arg_mapping option" where
  "getTargetArgMapping op =
     (case getAttr op ''target_arg_mapping'' of
        Some (CustomCallTargetArgMappingAttr mapping) \<Rightarrow> Some mapping
      | _ \<Rightarrow> None)"

text \<open>\<^verbatim>\<open>CustomCallOpLowering::matchAndRewrite\<close>. By default all operands are passed and the
  number of results is entry 1 of \<^verbatim>\<open>operand_segment_sizes\<close>, a 32-bit number widened to
  64 bits.\<close>

definition CustomCallOpLowering :: "module_op \<Rightarrow> pos \<Rightarrow> operation \<Rightarrow> rewrite_result" where
  "CustomCallOpLowering m p op =
     (case getAttr op ''operand_segment_sizes'' of
        Some (DenseI32ArrayAttr segs) \<Rightarrow>
          (case load_at segs 1 of
             Inl e \<Rightarrow> Inl e
           | Inr n \<Rightarrow>
               (case getTargetArgMapping op of
                  None \<Rightarrow> emit_custom_call m p op (getOperands op) (scast n)
                | Some mapping \<Rightarrow>
                    (case map_target_args m (fst p) op segs mapping of
                       Inl e \<Rightarrow> Inl e
                     | Inr (operands, m1) \<Rightarrow>
                         emit_custom_call m1 (shifted p) op operands (getNumResults mapping))))
      | _ \<Rightarrow> Inl NullAttribute)"

section \<open>All-reduce\<close>

definition alloc_op :: "val \<Rightarrow> operation" where
  "alloc_op v = \<lparr>opKind = AllocOp, getOperands = [], getResults = [v], getAttrs = []\<rparr>"

definition copy_op :: "val \<Rightarrow> val \<Rightarrow> operation" where
  "copy_op src dst = \<lparr>opKind = CopyOp, getOperands = [src, dst], getResults = [], getAttrs = []\<rparr>"

text \<open>The loop of lines 246 to 259. It returns the operations created in front of the
  all-reduce, the new operands, their types and the next free value number. The cast of an
  operand type that is not a memref is an error.\<close>

fun normalize_operands ::
  "val list \<Rightarrow> nat \<Rightarrow> error + (operation list \<times> val list \<times> ty list \<times> nat)" where
  "normalize_operands [] nv = Inr ([], [], [], nv)"
| "normalize_operands (operand # rest) nv =
     (case getType operand of
        MemRefType shape elt lay \<Rightarrow>
          if isIdentity lay then
            (case normalize_operands rest nv of
               Inl e \<Rightarrow> Inl e
             | Inr (created, new_operands, new_operand_types, nv') \<Rightarrow>
                 Inr (created, operand # new_operands,
                      MemRefType shape elt lay # new_operand_types, nv'))
          else
            (let default_layout_ty = MemRefType shape elt IdentityLayout;
                 new_operand = Val nv default_layout_ty
             in case normalize_operands rest (Suc nv) of
                  Inl e \<Rightarrow> Inl e
                | Inr (created, new_operands, new_operand_types, nv') \<Rightarrow>
                    Inr (alloc_op new_operand # copy_op operand new_operand # created,
                         new_operand # new_operands,
                         default_layout_ty # new_operand_types, nv'))
      | _ \<Rightarrow> Inl BadCast)"

definition all_operations :: "module_op \<Rightarrow> operation list" where
  "all_operations m = concat (concat (map getBlocks (funcs m)))"

definition use_empty :: "module_op \<Rightarrow> operation \<Rightarrow> bool" where
  "use_empty m op =
     list_all (\<lambda>user. list_all (\<lambda>v. v \<notin> set (getOperands user)) (getResults op))
       (all_operations m)"

definition eraseOp :: "module_op \<Rightarrow> pos \<Rightarrow> operation \<Rightarrow> error + module_op" where
  "eraseOp m p op = (case p of (fi, bi, oi) \<Rightarrow>
     if use_empty m op then Inr (map_block fi bi (replace_at oi []) m) else Inl UseNotEmpty)"

definition all_reduce_call :: "string \<Rightarrow> val list \<Rightarrow> operation \<Rightarrow> operation" where
  "all_reduce_call callee new_operands op =
     fold (\<lambda>(name, v). setAttr name v) (getAttrs op)
       (setAttr ''op_id'' (I64IntegerAttr 0)
          (setAttr ''use_global_device_ids'' (I32IntegerAttr 0)
             (new_call callee [] new_operands)))"

definition insert_before :: "nat \<Rightarrow> operation list \<Rightarrow> operation list \<Rightarrow> operation list" where
  "insert_before oi news blk = take oi blk @ news @ drop oi blk"

text \<open>\<^verbatim>\<open>AllReduceLowering::matchAndRewrite\<close>. The guard reads the type of the first
  operand; the new operations and the call are created in front of the all-reduce, which is
  then erased, and an operation that still has uses cannot be erased.\<close>

definition AllReduceLowering :: "module_op \<Rightarrow> pos \<Rightarrow> operation \<Rightarrow> rewrite_result" where
  "AllReduceLowering m p op = (case p of (fi, bi, oi) \<Rightarrow>
     (case getOperands op of
        [] \<Rightarrow> Inl EmptyRange
      | front # _ \<Rightarrow>
          if \<not> isa_MemRefType (getType front) then Inr (failure, m)
          else
            (case normalize_operands (getOperands op) (next_value m) of
               Inl e \<Rightarrow> Inl e
             | Inr (created, new_operands, new_operand_types, nv) \<Rightarrow>
                 (let (callee, m1) =
                        GetOrCreate (m\<lparr>next_value := nv\<rparr>) ''xla.cpu.all_reduce''
                          new_operand_types [];
                      call = all_reduce_call (declName callee) new_operands op;
                      m2 = map_block fi bi (insert_before oi (created @ [call])) m1
                  in case eraseOp m2 (fi, bi, oi + length created + 1) op of
                       Inl e \<Rightarrow> Inl e
                     | Inr m3 \<Rightarrow> Inr (success, m3)))))"

section \<open>The pattern set\<close>

text \<open>One application of the pattern set of \<^verbatim>\<open>runOnOperation\<close> to the operation at a
  position: each pattern is rooted at one operation kind.\<close>

definition applyPatterns :: "module_op \<Rightarrow> pos \<Rightarrow> rewrite_result" where
  "applyPatterns m p =
     (case op_at m p of
        None \<Rightarrow> Inr (failure, m)
      | Some op \<Rightarrow>
          (case opKind op of
             InfeedOp \<Rightarrow> InfeedOpLowering m p op
           | OutfeedOp \<Rightarrow> OutfeedOpLowering m p op
           | CustomCallOp \<Rightarrow> CustomCallOpLowering m p op
           | AllReduceOp \<Rightarrow> AllReduceLowering m p op
           | PartitionIdOp \<Rightarrow> IdOpLowering ''xla.cpu.partition_id'' m p op
           | ReplicaIdOp \<Rightarrow> IdOpLowering ''xla.cpu.replica_id'' m p op
           | _ \<Rightarrow> Inr (failure, m)))"

section \<open>Reading the lowered module\<close>

definition block_at :: "module_op \<Rightarrow> nat \<Rightarrow> nat \<Rightarrow> operation list" where
  "block_at m fi bi = getBlocks (funcs m ! fi) ! bi"

definition lookup_decl :: "module_op \<Rightarrow> string \<Rightarrow> func_decl option" where
  "lookup_decl m target = find (\<lambda>d. declName d = target) (custom_calls m)"

text \<open>The call that replaces a custom call, with the three attributes attached.\<close>

definition custom_call_op :: "val list \<Rightarrow> 64 word \<Rightarrow> attr \<Rightarrow> attr \<Rightarrow> operation" where
  "custom_call_op operands num_results api_version call_target_name =
     \<lparr>opKind = CallOp ''xla.cpu.custom_call'', getOperands = operands, getResults = [],
      getAttrs = [(''num_results'', I32IntegerAttr (ucast num_results)),
                  (''api_version'', api_version),
                  (''call_target_name'', call_target_name)]\<rparr>"

text \<open>
  The invariant of a target-argument mapping (the data model of the spec): one entry per
  source argument and per source result, every entry a slot below the declared count, no slot
  named twice, and the two counts and their sum non-negative 64-bit numbers.
\<close>

definition well_formed_mapping :: "target_arg_mapping \<Rightarrow> val list \<Rightarrow> val list \<Rightarrow> bool" where
  "well_formed_mapping mapping args outs =
     (length (getArgsToTargetArgs mapping) = length args
      \<and> length (getResultsToTargetResults mapping) = length outs
      \<and> list_all (\<lambda>t. unat t < unat (getNumArgs mapping)) (getArgsToTargetArgs mapping)
      \<and> list_all (\<lambda>t. unat t < unat (getNumResults mapping)) (getResultsToTargetResults mapping)
      \<and> distinct (getArgsToTargetArgs mapping)
      \<and> distinct (getResultsToTargetResults mapping)
      \<and> unat (getNumArgs mapping) + unat (getNumResults mapping) < 2 ^ 63)"

definition is_hole_alloca :: "operation \<Rightarrow> bool" where
  "is_hole_alloca op = (opKind op = AllocaOp \<and> map getType (getResults op) = [hole_type])"

text \<open>Whether a type is a memref in identity layout, and the memref type of the same shape and
  element type in identity layout.\<close>

fun has_identity_layout :: "ty \<Rightarrow> bool" where
  "has_identity_layout (MemRefType _ _ lay) = isIdentity lay"
| "has_identity_layout _ = False"

fun default_layout_type :: "ty \<Rightarrow> ty" where
  "default_layout_type (MemRefType shape elt _) = MemRefType shape elt IdentityLayout"
| "default_layout_type t = t"

text \<open>What the loop of the all-reduce pattern creates for one operand and its replacement.\<close>

definition normalization_ops :: "val \<Rightarrow> val \<Rightarrow> operation list" where
  "normalization_ops operand new_operand =
     (if has_identity_layout (getType operand) then []
      else [alloc_op new_operand, copy_op operand new_operand])"

text \<open>The attributes the all-reduce pattern sets before it copies those of the source
  operation.\<close>

definition all_reduce_defaults :: "(string \<times> attr) list" where
  "all_reduce_defaults =
     [(''use_global_device_ids'', I32IntegerAttr 0), (''op_id'', I64IntegerAttr 0)]"

section \<open>Iterating the patterns\<close>

text \<open>An operation is matchable when it is of one of the six kinds and its pattern does not
  decline it: the all-reduce pattern declines a first operand that is not a memref.\<close>

definition matchable :: "operation \<Rightarrow> bool" where
  "matchable op =
     (case opKind op of
        CustomCallOp \<Rightarrow> True
      | InfeedOp \<Rightarrow> True
      | OutfeedOp \<Rightarrow> True
      | PartitionIdOp \<Rightarrow> True
      | ReplicaIdOp \<Rightarrow> True
      | AllReduceOp \<Rightarrow>
          (case getOperands op of [] \<Rightarrow> True | front # _ \<Rightarrow> isa_MemRefType (getType front))
      | _ \<Rightarrow> False)"

definition count_matchable :: "module_op \<Rightarrow> nat" where
  "count_matchable m = length (filter matchable (all_operations m))"

text \<open>
  The greedy driver, reduced to what the pass asks of it: apply the patterns to the operations
  of the module until none matches. The positions are tried in order; a failed match leaves
  the module as it is, a successful one gives the module to go on with, and an error stops
  the pass.
\<close>

definition positions :: "module_op \<Rightarrow> pos list" where
  "positions m =
     concat (map (\<lambda>fi.
       concat (map (\<lambda>bi.
         map (\<lambda>oi. (fi, bi, oi)) [0 ..< length (getBlocks (funcs m ! fi) ! bi)])
         [0 ..< length (getBlocks (funcs m ! fi))]))
       [0 ..< length (funcs m)])"

fun first_match :: "module_op \<Rightarrow> pos list \<Rightarrow> error + module_op option" where
  "first_match m [] = Inr None"
| "first_match m (p # ps) =
     (case applyPatterns m p of
        Inl e \<Rightarrow> Inl e
      | Inr (success, m') \<Rightarrow> Inr (Some m')
      | Inr (failure, _) \<Rightarrow> first_match m ps)"

function applyPatternsGreedily :: "module_op \<Rightarrow> error + module_op" where
  "applyPatternsGreedily m =
     (case first_match m (positions m) of
        Inl e \<Rightarrow> Inl e
      | Inr None \<Rightarrow> Inr m
      | Inr (Some m') \<Rightarrow> applyPatternsGreedily m')"
  by pat_completeness auto

text \<open>\<^verbatim>\<open>ConvertLmhloToCpuRuntimePass::runOnOperation\<close>: the six patterns, applied greedily to
  the module.\<close>

definition runOnOperation :: "module_op \<Rightarrow> error + module_op" where
  "runOnOperation m = applyPatternsGreedily m"

section \<open>Example modules\<close>

definition f32_4x4 :: ty where
  "f32_4x4 = MemRefType [4, 4] F32 IdentityLayout"

definition f32_8 :: ty where
  "f32_8 = MemRefType [8] F32 IdentityLayout"

definition f32_4 :: ty where
  "f32_4 = MemRefType [4] F32 IdentityLayout"

text \<open>One function whose entry block holds a single infeed of two buffers.\<close>

definition infeed_module :: module_op where
  "infeed_module =
     \<lparr>funcs = [\<lparr>getName = ''main'', getBlocks =
        [[\<lparr>opKind = InfeedOp, getOperands = [Val 0 f32_4x4, Val 1 f32_8],
           getResults = [], getAttrs = []\<rparr>]]\<rparr>],
      custom_calls = [], next_value = 2\<rparr>"

text \<open>Two infeeds of different operand types in one block.\<close>

definition two_infeeds_module :: module_op where
  "two_infeeds_module =
     \<lparr>funcs = [\<lparr>getName = ''main'', getBlocks =
        [[\<lparr>opKind = InfeedOp, getOperands = [Val 0 f32_4], getResults = [], getAttrs = []\<rparr>,
          \<lparr>opKind = InfeedOp, getOperands = [Val 1 f32_8], getResults = [], getAttrs = []\<rparr>]]\<rparr>],
      custom_calls = [], next_value = 2\<rparr>"

text \<open>An all-reduce whose first operand is a scalar.\<close>

definition scalar_all_reduce_module :: module_op where
  "scalar_all_reduce_module =
     \<lparr>funcs = [\<lparr>getName = ''main'', getBlocks =
        [[\<lparr>opKind = AllReduceOp, getOperands = [Val 0 (ScalarType F32), Val 1 f32_8],
           getResults = [], getAttrs = []\<rparr>]]\<rparr>],
      custom_calls = [], next_value = 2\<rparr>"

text \<open>The same module once the first infeed has been lowered.\<close>

definition two_infeeds_after_first :: module_op where
  "two_infeeds_after_first =
     \<lparr>funcs = [\<lparr>getName = ''main'', getBlocks =
        [[\<lparr>opKind = CallOp ''xla.cpu.infeed'', getOperands = [Val 0 f32_4], getResults = [],
           getAttrs = []\<rparr>,
          \<lparr>opKind = InfeedOp, getOperands = [Val 1 f32_8], getResults = [], getAttrs = []\<rparr>]]\<rparr>],
      custom_calls = [\<lparr>declName = ''xla.cpu.infeed'', declInputs = [f32_4], declResults = []\<rparr>],
      next_value = 2\<rparr>"

text \<open>A custom call with the mapping \<open>{0 \<rightarrow> 2, 1 \<rightarrow> 0}\<close> over three target argument
  slots and no results.\<close>

definition mapped_custom_call :: operation where
  "mapped_custom_call =
     \<lparr>opKind = CustomCallOp, getOperands = [Val 0 f32_4, Val 1 f32_8], getResults = [],
      getAttrs =
        [(''api_version'', I32IntegerAttr 1),
         (''call_target_name'', StringAttr ''target''),
         (''operand_segment_sizes'', DenseI32ArrayAttr [2, 0]),
         (''target_arg_mapping'', CustomCallTargetArgMappingAttr
            \<lparr>getNumArgs = 3, getNumResults = 0, getArgsToTargetArgs = [2, 0],
             getResultsToTargetResults = []\<rparr>)]\<rparr>"

text \<open>A custom call with one argument and one result whose mapping covers every target
  slot.\<close>

definition covering_custom_call :: operation where
  "covering_custom_call =
     \<lparr>opKind = CustomCallOp, getOperands = [Val 0 f32_4, Val 1 f32_8], getResults = [],
      getAttrs =
        [(''api_version'', I32IntegerAttr 1),
         (''call_target_name'', StringAttr ''target''),
         (''operand_segment_sizes'', DenseI32ArrayAttr [1, 1]),
         (''target_arg_mapping'', CustomCallTargetArgMappingAttr
            \<lparr>getNumArgs = 1, getNumResults = 1, getArgsToTargetArgs = [0],
             getResultsToTargetResults = [0]\<rparr>)]\<rparr>"

text \<open>A custom call without a mapping: one argument, one result.\<close>

definition plain_custom_call :: operation where
  "plain_custom_call =
     \<lparr>opKind = CustomCallOp, getOperands = [Val 0 f32_4, Val 1 f32_8], getResults = [],
      getAttrs =
        [(''api_version'', I32IntegerAttr 1),
         (''call_target_name'', StringAttr ''target''),
         (''operand_segment_sizes'', DenseI32ArrayAttr [1, 1])]\<rparr>"

definition single_op_module :: "operation \<Rightarrow> module_op" where
  "single_op_module op =
     \<lparr>funcs = [\<lparr>getName = ''main'', getBlocks = [[op]]\<rparr>], custom_calls = [], next_value = 2\<rparr>"

text \<open>Two custom calls in the entry block of one function, each with a mapping that leaves
  slot 1 a hole.\<close>

definition two_custom_calls_module :: module_op where
  "two_custom_calls_module =
     \<lparr>funcs = [\<lparr>getName = ''main'', getBlocks = [[mapped_custom_call, mapped_custom_call]]\<rparr>],
      custom_calls = [], next_value = 2\<rparr>"

text \<open>The modules the lowering makes of these examples.\<close>

definition custom_call_decl :: "ty list \<Rightarrow> func_decl" where
  "custom_call_decl inputs =
     \<lparr>declName = ''xla.cpu.custom_call'', declInputs = inputs, declResults = []\<rparr>"

definition mapped_lowered :: module_op where
  "mapped_lowered =
     \<lparr>funcs = [\<lparr>getName = ''main'', getBlocks =
        [[alloca_op (Val 2 hole_type),
          custom_call_op [Val 1 f32_8, Val 2 hole_type, Val 0 f32_4] 0 (I32IntegerAttr 1)
            (StringAttr ''target'')]]\<rparr>],
      custom_calls = [custom_call_decl [f32_8, hole_type, f32_4]], next_value = 3\<rparr>"

definition covering_lowered :: module_op where
  "covering_lowered =
     \<lparr>funcs = [\<lparr>getName = ''main'', getBlocks =
        [[alloca_op (Val 2 hole_type),
          custom_call_op [Val 0 f32_4, Val 1 f32_8] 1 (I32IntegerAttr 1)
            (StringAttr ''target'')]]\<rparr>],
      custom_calls = [custom_call_decl [f32_4, f32_8]], next_value = 3\<rparr>"

definition plain_lowered :: module_op where
  "plain_lowered =
     \<lparr>funcs = [\<lparr>getName = ''main'', getBlocks =
        [[custom_call_op [Val 0 f32_4, Val 1 f32_8] 1 (I32IntegerAttr 1)
            (StringAttr ''target'')]]\<rparr>],
      custom_calls = [custom_call_decl [f32_4, f32_8]], next_value = 2\<rparr>"

definition two_custom_calls_after_first :: module_op where
  "two_custom_calls_after_first =
     \<lparr>funcs = [\<lparr>getName = ''main'', getBlocks =
        [[alloca_op (Val 2 hole_type),
          custom_call_op [Val 1 f32_8, Val 2 hole_type, Val 0 f32_4] 0 (I32IntegerAttr 1)
            (StringAttr ''target''),
          mapped_custom_call]]\<rparr>],
      custom_calls = [custom_call_decl [f32_8, hole_type, f32_4]], next_value = 3\<rparr>"

definition two_custom_calls_lowered :: module_op where
  "two_custom_calls_lowered =
     \<lparr>funcs = [\<lparr>getName = ''main'', getBlocks =
        [[alloca_op (Val 3 hole_type),
          alloca_op (Val 2 hole_type),
          custom_call_op [Val 1 f32_8, Val 2 hole_type, Val 0 f32_4] 0 (I32IntegerAttr 1)
            (StringAttr ''target''),
          custom_call_op [Val 1 f32_8, Val 3 hole_type, Val 0 f32_4] 0 (I32IntegerAttr 1)
            (StringAttr ''target'')]]\<rparr>],
      custom_calls = [custom_call_decl [f32_8, hole_type, f32_4]], next_value = 4\<rparr>"

text \<open>An all-reduce of a contiguous buffer and a strided view, with \<open>op_id = 7\<close>, and the
  module its lowering gives.\<close>

definition strided_f32_4 :: ty where
  "strided_f32_4 = MemRefType [4] F32 (StridedLayout [2] 0)"

definition strided_all_reduce :: operation where
  "strided_all_reduce =
     \<lparr>opKind = AllReduceOp, getOperands = [Val 0 f32_8, Val 1 strided_f32_4], getResults = [],
      getAttrs = [(''op_id'', I64IntegerAttr 7), (''reduction_kind'', OtherAttr ''sum'')]\<rparr>"

definition all_reduce_decl :: "ty list \<Rightarrow> func_decl" where
  "all_reduce_decl inputs =
     \<lparr>declName = ''xla.cpu.all_reduce'', declInputs = inputs, declResults = []\<rparr>"

definition strided_lowered :: module_op where
  "strided_lowered =
     \<lparr>funcs = [\<lparr>getName = ''main'', getBlocks =
        [[alloc_op (Val 2 f32_4),
          copy_op (Val 1 strided_f32_4) (Val 2 f32_4),
          \<lparr>opKind = CallOp ''xla.cpu.all_reduce'', getOperands = [Val 0 f32_8, Val 2 f32_4],
           getResults = [],
           getAttrs = [(''use_global_device_ids'', I32IntegerAttr 0),
                       (''op_id'', I64IntegerAttr 7),
                       (''reduction_kind'', OtherAttr ''sum'')]\<rparr>]]\<rparr>],
      custom_calls = [all_reduce_decl [f32_8, f32_4]], next_value = 3\<rparr>"

text \<open>An all-reduce of one contiguous buffer without attributes.\<close>

definition plain_all_reduce :: operation where
  "plain_all_reduce =
     \<lparr>opKind = AllReduceOp, getOperands = [Val 0 f32_8], getResults = [], getAttrs = []\<rparr>"

definition plain_all_reduce_lowered :: module_op where
  "plain_all_reduce_lowered =
     \<lparr>funcs = [\<lparr>getName = ''main'', getBlocks =
        [[\<lparr>opKind = CallOp ''xla.cpu.all_reduce'', getOperands = [Val 0 f32_8],
           getResults = [],
           getAttrs = [(''use_global_device_ids'', I32IntegerAttr 0),
                       (''op_id'', I64IntegerAttr 0)]\<rparr>]]\<rparr>],
      custom_calls = [all_reduce_decl [f32_8]], next_value = 2\<rparr>"





text \<open>An all-reduce whose first operand is a buffer and whose second is a scalar.\<close>

definition mixed_all_reduce :: operation where
  "mixed_all_reduce =
     \<lparr>opKind = AllReduceOp, getOperands = [Val 0 f32_8, Val 1 (ScalarType F32)],
      getResults = [], getAttrs = []\<rparr>"

text \<open>The lowered module of the single infeed.\<close>

definition infeed_lowered :: module_op where
  "infeed_lowered =
     \<lparr>funcs = [\<lparr>getName = ''main'', getBlocks =
        [[\<lparr>opKind = CallOp ''xla.cpu.infeed'', getOperands = [Val 0 f32_4x4, Val 1 f32_8],
           getResults = [], getAttrs = []\<rparr>]]\<rparr>],
      custom_calls = [\<lparr>declName = ''xla.cpu.infeed'', declInputs = [f32_4x4, f32_8],
                       declResults = []\<rparr>],
      next_value = 2\<rparr>"

section \<open>Properties\<close>

subsection \<open>Auxiliary facts\<close>

lemma funcs_map_block [simp]:
  "funcs (map_block fi bi g m) = (funcs m)[fi := (funcs m ! fi)
        \<lparr>getBlocks := (getBlocks (funcs m ! fi))[bi := g (getBlocks (funcs m ! fi) ! bi)]\<rparr>]"
  by (simp add: map_block_def)

lemma custom_calls_map_block [simp]: "custom_calls (map_block fi bi g m) = custom_calls m"
  by (simp add: map_block_def)

lemma next_value_map_block [simp]: "next_value (map_block fi bi g m) = next_value m"
  by (simp add: map_block_def)

lemma op_at_SomeD:
  "op_at m (fi, bi, oi) = Some op \<Longrightarrow>
     fi < length (funcs m) \<and> bi < length (getBlocks (funcs m ! fi))
     \<and> oi < length (getBlocks (funcs m ! fi) ! bi) \<and> getBlocks (funcs m ! fi) ! bi ! oi = op"
  by (auto simp: op_at_def split: if_splits)

lemma block_at_map_block:
  "fi < length (funcs m) \<Longrightarrow> bi < length (getBlocks (funcs m ! fi)) \<Longrightarrow>
     block_at (map_block fi bi g m) fi bi = g (block_at m fi bi)"
  by (simp add: block_at_def)

lemma GetOrCreate_funcs [simp]: "funcs (snd (GetOrCreate m t i r)) = funcs m"
  by (simp add: GetOrCreate_def Let_def split: option.splits)

lemma GetOrCreate_next_value [simp]: "next_value (snd (GetOrCreate m t i r)) = next_value m"
  by (simp add: GetOrCreate_def Let_def split: option.splits)

lemma GetOrCreate_name: "declName (fst (GetOrCreate m t i r)) = t"
  by (auto simp: GetOrCreate_def Let_def find_Some_iff split: option.splits)

lemma block_at_GetOrCreate [simp]: "block_at (snd (GetOrCreate m t i r)) fi bi = block_at m fi bi"
  by (simp add: block_at_def)

lemma LowerXfeed_result:
  assumes "op_at m (fi, bi, oi) = Some op" and "getResults op = []"
  shows "LowerXfeed m (fi, bi, oi) op target =
     Inr (success, map_block fi bi (replace_at oi [new_call target [] (getOperands op)])
         (snd (GetOrCreate m target (map getType (getOperands op)) [])))"
proof -
  obtain callee m1 where g: "GetOrCreate m target (map getType (getOperands op)) [] = (callee, m1)"
    by (cases "GetOrCreate m target (map getType (getOperands op)) []")
  have "declName callee = target"
    using GetOrCreate_name [of m target "map getType (getOperands op)" "[]"] g by simp
  then show ?thesis
    using assms g by (simp add: LowerXfeed_def replaceOpWithNewCallOp_def)
qed

lemma find_append_case: "find P (xs @ ys) = (case find P xs of Some x \<Rightarrow> Some x | None \<Rightarrow> find P ys)"
  by (induction xs) auto

lemma lookup_decl_GetOrCreate:
  "lookup_decl (snd (GetOrCreate m t i r)) t =
     (case lookup_decl m t of Some d \<Rightarrow> Some d
      | None \<Rightarrow> Some \<lparr>declName = t, declInputs = i, declResults = r\<rparr>)"
  by (auto simp: lookup_decl_def GetOrCreate_def Let_def find_append_case split: option.splits)

lemma update_operands_length:
  "update_operands base ts src i operands = Inr operands' \<Longrightarrow> length operands' = length operands"
  by (induction ts arbitrary: i operands)
     (auto simp: load_at_def store_at_def split: if_splits sum.splits)

lemma update_operands_untouched:
  "update_operands base ts src i operands = Inr operands' \<Longrightarrow>
     k \<notin> (\<lambda>t. unat (base + t)) ` set ts \<Longrightarrow> operands' ! k = operands ! k"
  by (induction ts arbitrary: i operands)
     (auto simp: load_at_def store_at_def split: if_splits sum.splits)

lemma update_operands_written:
  "update_operands base ts src i operands = Inr operands' \<Longrightarrow>
     distinct (map (\<lambda>t. unat (base + t)) ts) \<Longrightarrow> j < length ts \<Longrightarrow>
     operands' ! unat (base + ts ! j) = src ! (i + j)"
proof (induction ts arbitrary: i j operands)
  case Nil
  then show ?case by simp
next
  case (Cons t ts)
  from Cons.prems(1) obtain operands1 where
    st: "i < length src" "unat (base + t) < length operands"
        "operands1 = operands[unat (base + t) := src ! i]"
    and rest: "update_operands base ts src (Suc i) operands1 = Inr operands'"
    by (auto simp: load_at_def store_at_def split: if_splits sum.splits)
  show ?case
  proof (cases j)
    case 0
    have "unat (base + t) \<notin> (\<lambda>t. unat (base + t)) ` set ts"
      using Cons.prems(2) by auto
    then have "operands' ! unat (base + t) = operands1 ! unat (base + t)"
      using update_operands_untouched [OF rest] by blast
    then show ?thesis using 0 st by simp
  next
    case (Suc j')
    then show ?thesis
      using Cons.IH [OF rest, of j'] Cons.prems by simp
  qed
qed

lemma update_operands_succeeds:
  "i + length ts \<le> length src \<Longrightarrow> \<forall>t \<in> set ts. unat (base + t) < length operands \<Longrightarrow>
     \<exists>operands'. update_operands base ts src i operands = Inr operands'"
proof (induction ts arbitrary: i operands)
  case Nil
  then show ?case by simp
next
  case (Cons t ts)
  have "\<exists>operands'. update_operands base ts src (Suc i) (operands[unat (base + t) := src ! i]) = Inr operands'"
    using Cons.prems by (intro Cons.IH) auto
  then show ?case
    using Cons.prems by (auto simp: load_at_def store_at_def)
qed

lemma block_at_map_block_other:
  "fi' \<noteq> fi \<or> bi' \<noteq> bi \<Longrightarrow> block_at (map_block fi bi g m) fi' bi' = block_at m fi' bi'"
  by (cases "fi < length (funcs m)"; cases "fi' = fi") (auto simp: block_at_def list_update_beyond)

lemma map_block_map_block:
  "fi < length (funcs m) \<Longrightarrow> bi < length (getBlocks (funcs m ! fi)) \<Longrightarrow>
     map_block fi bi g2 (map_block fi bi g1 m) = map_block fi bi (\<lambda>blk. g2 (g1 blk)) m"
  by (simp add: map_block_def)

lemma map_block_cong:
  "g (block_at m fi bi) = g' (block_at m fi bi) \<Longrightarrow> map_block fi bi g m = map_block fi bi g' m"
  by (simp add: map_block_def block_at_def)

lemma op_at_block_at:
  "op_at m (fi, bi, oi) = Some op \<Longrightarrow> oi < length (block_at m fi bi) \<and> block_at m fi bi ! oi = op"
  by (auto simp: op_at_def block_at_def split: if_splits)

lemma AppendCustomCallAttrs_new_call:
  "AppendCustomCallAttrs [(''num_results'', I32IntegerAttr (ucast n)), (''api_version'', av),
      (''call_target_name'', ctn)] (new_call ''xla.cpu.custom_call'' [] operands)
   = custom_call_op operands n av ctn"
  by (simp add: AppendCustomCallAttrs_def setAttr_def new_call_def custom_call_op_def)

lemma emit_custom_call_result:
  assumes at: "op_at m (fi, bi, oi) = Some op'"
    and attrs: "getAttr op ''api_version'' = Some av" "getAttr op ''call_target_name'' = Some ctn"
    and nores: "getResults op = []"
  shows "emit_custom_call m (fi, bi, oi) op operands n =
     Inr (success, map_block fi bi (replace_at oi [custom_call_op operands n av ctn])
         (snd (GetOrCreate m ''xla.cpu.custom_call'' (map getType operands) [])))"
proof -
  obtain callee m1 where g: "GetOrCreate m ''xla.cpu.custom_call'' (map getType operands) [] = (callee, m1)"
    by (cases "GetOrCreate m ''xla.cpu.custom_call'' (map getType operands) []")
  have name: "declName callee = ''xla.cpu.custom_call''"
    using GetOrCreate_name [of m "''xla.cpu.custom_call''" "map getType operands" "[]"] g by simp
  have fs: "funcs m1 = funcs m"
    using GetOrCreate_funcs [of m "''xla.cpu.custom_call''" "map getType operands" "[]"] g by simp
  have valid: "fi < length (funcs m1)" "bi < length (getBlocks (funcs m1 ! fi))"
      "oi < length (block_at m1 fi bi)"
    using op_at_SomeD [OF at] fs by (simp_all add: block_at_def)
  have "update_op (fi, bi, oi) (AppendCustomCallAttrs [(''num_results'', I32IntegerAttr (ucast n)), (''api_version'', av),
      (''call_target_name'', ctn)]) (map_block fi bi (replace_at oi [new_call ''xla.cpu.custom_call'' [] operands]) m1)
     = map_block fi bi (replace_at oi [custom_call_op operands n av ctn]) m1"
    unfolding update_op_def prod.case map_block_map_block [OF valid(1,2)]
    by (rule map_block_cong)
       (use valid(3) in \<open>simp add: replace_at_def nth_append AppendCustomCallAttrs_new_call list_update_append\<close>)
  then show ?thesis
    using assms g name by (simp add: emit_custom_call_def replaceOpWithNewCallOp_def)
qed

lemma emit_custom_call_InrD:
  "emit_custom_call m p op operands n = Inr x \<Longrightarrow>
     \<exists>av ctn. getAttr op ''api_version'' = Some av \<and> getAttr op ''call_target_name'' = Some ctn
       \<and> getResults op = []"
  by (auto simp: emit_custom_call_def replaceOpWithNewCallOp_def
           split: prod.splits option.splits if_splits)

lemma block_at_create_hole_entry:
  "fi < length (funcs m) \<Longrightarrow> getBlocks (funcs m ! fi) \<noteq> [] \<Longrightarrow>
     block_at (snd (create_hole m fi)) fi 0
       = alloca_op (Val (next_value m) hole_type) # block_at m fi 0"
  by (simp add: create_hole_def Let_def block_at_def)

lemma block_at_create_hole_other:
  "fi' \<noteq> fi \<or> bi \<noteq> 0 \<Longrightarrow> block_at (snd (create_hole m fi)) fi' bi = block_at m fi' bi"
  using block_at_map_block_other [of fi' fi bi 0]
  by (simp add: create_hole_def Let_def block_at_def)

lemma create_hole_fst: "fst (create_hole m fi) = Val (next_value m) hole_type"
  by (simp add: create_hole_def Let_def)

lemma create_hole_shape:
  "length (funcs (snd (create_hole m fi))) = length (funcs m)"
  "fi' < length (funcs m) \<Longrightarrow>
     length (getBlocks (funcs (snd (create_hole m fi)) ! fi')) = length (getBlocks (funcs m ! fi'))"
  "custom_calls (snd (create_hole m fi)) = custom_calls m"
  "next_value (snd (create_hole m fi)) = Suc (next_value m)"
  by (cases "fi' = fi"; simp add: create_hole_def Let_def)+

lemma op_at_create_hole:
  assumes "op_at m (fi, bi, oi) = Some op"
  shows "op_at (snd (create_hole m fi)) (shifted (fi, bi, oi)) = Some op"
proof -
  have v: "fi < length (funcs m)" "bi < length (getBlocks (funcs m ! fi))"
      "oi < length (block_at m fi bi)" "block_at m fi bi ! oi = op"
    using op_at_SomeD [OF assms] by (simp_all add: block_at_def)
  then have ne: "getBlocks (funcs m ! fi) \<noteq> []" by auto
  show ?thesis
  proof (cases "bi = 0")
    case True
    then show ?thesis
      using v block_at_create_hole_entry [OF v(1) ne] create_hole_shape(1) [of m fi] create_hole_shape(2) [of fi m fi]
      by (simp add: op_at_def shifted_def block_at_def)
  next
    case False
    then show ?thesis
      using v block_at_create_hole_other [of fi fi bi m] create_hole_shape(1) [of m fi] create_hole_shape(2) [of fi m fi]
      by (simp add: op_at_def shifted_def block_at_def)
  qed
qed

lemma map_target_args_InrD:
  assumes "map_target_args m fi op segs mapping = Inr (operands, m1)"
  shows "m1 = snd (create_hole m fi)"
    and "length operands = unat (getNumArgs mapping + getNumResults mapping)"
    and "k < length operands \<Longrightarrow> k \<notin> unat ` set (getArgsToTargetArgs mapping) \<Longrightarrow>
         k \<notin> (\<lambda>t. unat (getNumArgs mapping + t)) ` set (getResultsToTargetResults mapping) \<Longrightarrow>
         operands ! k = Val (next_value m) hole_type"
proof -
  let ?hole = "Val (next_value m) hole_type"
  let ?ops0 = "replicate (unat (getNumArgs mapping + getNumResults mapping)) ?hole"
  from assms obtain ops1 where
    a: "update_operands 0 (getArgsToTargetArgs mapping) (getODSOperands 0 segs op) 0 ?ops0 = Inr ops1"
    and b: "update_operands (getNumArgs mapping) (getResultsToTargetResults mapping)
              (getODSOperands 1 segs op) 0 ops1 = Inr operands"
    and m1: "m1 = snd (create_hole m fi)"
    by (auto simp: map_target_args_def Let_def create_hole_def split: sum.splits prod.splits)
  show "m1 = snd (create_hole m fi)" by (rule m1)
  show len: "length operands = unat (getNumArgs mapping + getNumResults mapping)"
    using update_operands_length [OF a] update_operands_length [OF b] by simp
  assume k: "k < length operands" "k \<notin> unat ` set (getArgsToTargetArgs mapping)"
    "k \<notin> (\<lambda>t. unat (getNumArgs mapping + t)) ` set (getResultsToTargetResults mapping)"
  have "operands ! k = ops1 ! k"
    using update_operands_untouched [OF b k(3)] .
  also have "\<dots> = ?ops0 ! k"
    using update_operands_untouched [OF a, of k] k(2) by simp
  also have "\<dots> = ?hole"
    using k(1) len by simp
  finally show "operands ! k = ?hole" .
qed

lemma unat_add_small:
  fixes a b :: "64 word"
  shows "unat a + unat b < 2 ^ 63 \<Longrightarrow> unat (a + b) = unat a + unat b"
  using unat_add_lem [of a b] by simp

lemma map_target_args_well_formed:
  assumes wf: "well_formed_mapping mapping (getODSOperands 0 segs op) (getODSOperands 1 segs op)"
  shows "\<exists>operands. map_target_args m fi op segs mapping = Inr (operands, snd (create_hole m fi))
     \<and> length operands = unat (getNumArgs mapping) + unat (getNumResults mapping)
     \<and> (\<forall>i < length (getODSOperands 0 segs op).
           operands ! unat (getArgsToTargetArgs mapping ! i) = getODSOperands 0 segs op ! i)
     \<and> (\<forall>j < length (getODSOperands 1 segs op).
           operands ! (unat (getNumArgs mapping) + unat (getResultsToTargetResults mapping ! j))
             = getODSOperands 1 segs op ! j)"
proof -
  let ?na = "getNumArgs mapping" and ?nr = "getNumResults mapping"
  let ?am = "getArgsToTargetArgs mapping" and ?rm = "getResultsToTargetResults mapping"
  let ?args = "getODSOperands 0 segs op" and ?outs = "getODSOperands 1 segs op"
  let ?hole = "Val (next_value m) hole_type"
  let ?ops0 = "replicate (unat (?na + ?nr)) ?hole"
  from wf have len: "length ?am = length ?args" "length ?rm = length ?outs"
    and am: "\<And>t. t \<in> set ?am \<Longrightarrow> unat t < unat ?na"
    and rm: "\<And>t. t \<in> set ?rm \<Longrightarrow> unat t < unat ?nr"
    and dist: "distinct ?am" "distinct ?rm"
    and small: "unat ?na + unat ?nr < 2 ^ 63"
    by (auto simp: well_formed_mapping_def list_all_iff)
  have sum: "unat (?na + ?nr) = unat ?na + unat ?nr"
    using small by (rule unat_add_small)
  have slot: "unat (?na + t) = unat ?na + unat t" if "t \<in> set ?rm" for t
    using rm [OF that] small by (intro unat_add_small) simp
  have "\<exists>ops1. update_operands 0 ?am ?args 0 ?ops0 = Inr ops1"
    using len am sum by (intro update_operands_succeeds) (auto simp: less_SucI trans_less_add1)
  then obtain ops1 where a: "update_operands 0 ?am ?args 0 ?ops0 = Inr ops1" ..
  have l1: "length ops1 = unat ?na + unat ?nr"
    using update_operands_length [OF a] sum by simp
  have "\<exists>ops2. update_operands ?na ?rm ?outs 0 ops1 = Inr ops2"
    using len rm slot l1 by (intro update_operands_succeeds) auto
  then obtain ops2 where b: "update_operands ?na ?rm ?outs 0 ops1 = Inr ops2" ..
  have l2: "length ops2 = unat ?na + unat ?nr"
    using update_operands_length [OF b] l1 by simp
  have d1: "distinct (map (\<lambda>t. unat (0 + t)) ?am)"
    using dist(1) by (auto simp: distinct_map inj_on_def dest: word_unat_eq_iff [THEN iffD2])
  have d2: "distinct (map (\<lambda>t. unat (?na + t)) ?rm)"
  proof -
    have "x = y" if "unat (?na + x) = unat (?na + y)" for x y
      using word_unat_eq_iff [THEN iffD2, OF that] by simp
    then show ?thesis
      using dist(2) by (auto simp: distinct_map inj_on_def)
  qed
  have res: "ops2 ! (unat ?na + unat (?rm ! j)) = ?outs ! j" if "j < length ?outs" for j
    using update_operands_written [OF b d2, of j] that len slot [of "?rm ! j"] by simp
  have arg: "ops2 ! unat (?am ! i) = ?args ! i" if "i < length ?args" for i
  proof -
    have "unat (?am ! i) < unat ?na"
      using that len am by simp
    then have "unat (?am ! i) \<notin> (\<lambda>t. unat (?na + t)) ` set ?rm"
      using slot by auto
    then have "ops2 ! unat (?am ! i) = ops1 ! unat (?am ! i)"
      by (rule update_operands_untouched [OF b])
    also have "\<dots> = ?args ! i"
      using update_operands_written [OF a d1, of i] that len by simp
    finally show ?thesis .
  qed
  have "map_target_args m fi op segs mapping = Inr (ops2, snd (create_hole m fi))"
    using a b by (simp add: map_target_args_def Let_def create_hole_def)
  then show ?thesis
    using l2 res arg by blast
qed

lemma op_at_GetOrCreate [simp]: "op_at (snd (GetOrCreate m t i r)) p = op_at m p"
  by (cases p) (simp add: op_at_def)

lemma op_at_replaced:
  assumes "op_at m (fi, bi, oi) = Some x"
  shows "op_at (map_block fi bi (replace_at oi [c]) m) (fi, bi, oi) = Some c"
  using op_at_SomeD [OF assms]
  by (auto simp: op_at_def replace_at_def nth_append)

lemma load_at_1:
  "load_at segs (Suc 0) = (if 1 < length segs then Inr (segs ! 1) else Inl IndexOutOfRange)"
  by (simp add: load_at_def)

lemma CustomCallOpLowering_mapped:
  assumes at: "op_at m (fi, bi, oi) = Some op"
    and segs: "getAttr op ''operand_segment_sizes'' = Some (DenseI32ArrayAttr segs)"
      "1 < length segs"
    and mp: "getTargetArgMapping op = Some mapping"
    and mta: "map_target_args m fi op segs mapping = Inr (operands, m1)"
    and attrs: "getAttr op ''api_version'' = Some av" "getAttr op ''call_target_name'' = Some ctn"
    and nores: "getResults op = []"
  shows "CustomCallOpLowering m (fi, bi, oi) op =
     Inr (success,
       map_block fi bi
         (replace_at (if bi = 0 then Suc oi else oi)
            [custom_call_op operands (getNumResults mapping) av ctn])
         (snd (GetOrCreate (snd (create_hole m fi)) ''xla.cpu.custom_call''
                 (map getType operands) [])))"
proof -
  have m1: "m1 = snd (create_hole m fi)"
    using map_target_args_InrD(1) [OF mta] .
  have at': "op_at m1 (fi, bi, if bi = 0 then Suc oi else oi) = Some op"
    using op_at_create_hole [OF at] m1 by (simp add: shifted_def)
  show ?thesis
    using segs mp mta emit_custom_call_result [OF at' attrs nores] m1
    by (simp add: CustomCallOpLowering_def load_at_1 shifted_def)
qed

lemma CustomCallOpLowering_direct:
  assumes at: "op_at m (fi, bi, oi) = Some op"
    and segs: "getAttr op ''operand_segment_sizes'' = Some (DenseI32ArrayAttr segs)"
      "1 < length segs"
    and mp: "getTargetArgMapping op = None"
    and attrs: "getAttr op ''api_version'' = Some av" "getAttr op ''call_target_name'' = Some ctn"
    and nores: "getResults op = []"
  shows "CustomCallOpLowering m (fi, bi, oi) op =
     Inr (success,
       map_block fi bi
         (replace_at oi [custom_call_op (getOperands op) (scast (segs ! 1)) av ctn])
         (snd (GetOrCreate m ''xla.cpu.custom_call'' (map getType (getOperands op)) [])))"
  using segs mp emit_custom_call_result [OF at attrs nores]
  by (simp add: CustomCallOpLowering_def load_at_1)

lemma CustomCallOpLowering_InrD:
  assumes run: "CustomCallOpLowering m (fi, bi, oi) op = Inr (r, m')"
  shows "\<exists>segs av ctn.
     getAttr op ''operand_segment_sizes'' = Some (DenseI32ArrayAttr segs) \<and> 1 < length segs
     \<and> getAttr op ''api_version'' = Some av \<and> getAttr op ''call_target_name'' = Some ctn
     \<and> getResults op = []
     \<and> (case getTargetArgMapping op of None \<Rightarrow> True
         | Some mapping \<Rightarrow> \<exists>operands. map_target_args m fi op segs mapping
              = Inr (operands, snd (create_hole m fi)))"
proof -
  from run obtain segs where
    segs: "getAttr op ''operand_segment_sizes'' = Some (DenseI32ArrayAttr segs)"
    by (auto simp: CustomCallOpLowering_def split: option.splits attr.splits)
  from run segs have len: "1 < length segs"
    by (auto simp: CustomCallOpLowering_def load_at_1 split: if_splits)
  show ?thesis
  proof (cases "getTargetArgMapping op")
    case None
    then have "emit_custom_call m (fi, bi, oi) op (getOperands op) (scast (segs ! 1)) = Inr (r, m')"
      using run segs len by (simp add: CustomCallOpLowering_def load_at_1)
    from emit_custom_call_InrD [OF this] show ?thesis
      using segs len None by auto
  next
    case (Some mapping)
    then obtain operands m1 where
      mta: "map_target_args m fi op segs mapping = Inr (operands, m1)"
      and e: "emit_custom_call m1 (shifted (fi, bi, oi)) op operands (getNumResults mapping) = Inr (r, m')"
      using run segs len
      by (auto simp: CustomCallOpLowering_def load_at_1 split: sum.splits)
    from emit_custom_call_InrD [OF e] map_target_args_InrD(1) [OF mta] mta show ?thesis
      using segs len Some by auto
  qed
qed




lemma replace_at_Cons: "replace_at (Suc oi) news (x # blk) = x # replace_at oi news blk"
  by (simp add: replace_at_def)

lemma mapped_call_at:
  assumes at: "op_at m (fi, bi, oi) = Some op"
  shows "op_at (map_block fi bi (replace_at (if bi = 0 then Suc oi else oi) [c])
            (snd (GetOrCreate (snd (create_hole m fi)) t i r))) (shifted (fi, bi, oi)) = Some c"
proof -
  have "op_at (snd (GetOrCreate (snd (create_hole m fi)) t i r))
          (fi, bi, if bi = 0 then Suc oi else oi) = Some op"
    using op_at_create_hole [OF at] by (simp add: shifted_def)
  from op_at_replaced [OF this] show ?thesis
    by (simp add: shifted_def)
qed

lemma mapped_entry_block:
  assumes at: "op_at m (fi, bi, oi) = Some op"
  shows "block_at (map_block fi bi (replace_at (if bi = 0 then Suc oi else oi) [c])
            (snd (GetOrCreate (snd (create_hole m fi)) t i r))) fi 0
     = alloca_op (Val (next_value m) hole_type)
       # (if bi = 0 then replace_at oi [c] (block_at m fi 0) else block_at m fi 0)"
proof -
  let ?m1 = "snd (GetOrCreate (snd (create_hole m fi)) t i r)"
  have v: "fi < length (funcs m)" "bi < length (getBlocks (funcs m ! fi))"
    using op_at_SomeD [OF at] by simp_all
  then have ne: "getBlocks (funcs m ! fi) \<noteq> []" by auto
  have e: "block_at ?m1 fi 0 = alloca_op (Val (next_value m) hole_type) # block_at m fi 0"
    using block_at_create_hole_entry [OF v(1) ne] by simp
  have v1: "fi < length (funcs ?m1)" "bi < length (getBlocks (funcs ?m1 ! fi))"
    using v create_hole_shape(1) [of m fi] create_hole_shape(2) [of fi m fi] by simp_all
  show ?thesis
  proof (cases "bi = 0")
    case True
    then show ?thesis
      using block_at_map_block [OF v1, of "replace_at (Suc oi) [c]"] e
      by (simp add: replace_at_Cons)
  next
    case False
    then show ?thesis
      using block_at_map_block_other [of fi fi 0 bi "replace_at oi [c]" ?m1] e by simp
  qed
qed

lemmas lowering_defs =
  applyPatterns_def op_at_def InfeedOpLowering_def OutfeedOpLowering_def LowerXfeed_def
  IdOpLowering_def GetOrCreate_def replaceOpWithNewCallOp_def map_block_def replace_at_def
  new_call_def CustomCallOpLowering_def getAttr_def getTargetArgMapping_def load_at_def
  store_at_def map_target_args_def create_hole_def alloca_op_def getODSOperands_def
  emit_custom_call_def shifted_def update_op_def AppendCustomCallAttrs_def setAttr_def
  AllReduceLowering_def alloc_op_def copy_op_def eraseOp_def use_empty_def all_operations_def
  all_reduce_call_def insert_before_def Let_def

lemma filter_replace_at:
  "oi < length blk \<Longrightarrow> \<not> P (blk ! oi) \<Longrightarrow> \<not> P c \<Longrightarrow>
     filter P (replace_at oi [c] blk) = filter P blk"
proof -
  assume a: "oi < length blk" "\<not> P (blk ! oi)" "\<not> P c"
  have "filter P blk = filter P (take oi blk @ blk ! oi # drop (Suc oi) blk)"
    using id_take_nth_drop [OF a(1)] by simp
  then show ?thesis using a by (simp add: replace_at_def)
qed

lemma custom_call_mapped_success:
  assumes at: "op_at m (fi, bi, oi) = Some op"
    and kind: "opKind op = CustomCallOp"
    and mp: "getTargetArgMapping op = Some mapping"
    and run: "applyPatterns m (fi, bi, oi) = Inr (success, m')"
  shows "\<exists>segs operands av ctn.
       getAttr op ''operand_segment_sizes'' = Some (DenseI32ArrayAttr segs) \<and> 1 < length segs
     \<and> getAttr op ''api_version'' = Some av \<and> getAttr op ''call_target_name'' = Some ctn
     \<and> map_target_args m fi op segs mapping = Inr (operands, snd (create_hole m fi))
     \<and> m' = map_block fi bi
         (replace_at (if bi = 0 then Suc oi else oi)
            [custom_call_op operands (getNumResults mapping) av ctn])
         (snd (GetOrCreate (snd (create_hole m fi)) ''xla.cpu.custom_call''
                 (map getType operands) []))"
proof -
  have r: "CustomCallOpLowering m (fi, bi, oi) op = Inr (success, m')"
    using run at kind by (simp add: applyPatterns_def)
  from CustomCallOpLowering_InrD [OF r] mp obtain segs av ctn operands where
    segs: "getAttr op ''operand_segment_sizes'' = Some (DenseI32ArrayAttr segs)" "1 < length segs"
    and attrs: "getAttr op ''api_version'' = Some av" "getAttr op ''call_target_name'' = Some ctn"
    and nores: "getResults op = []"
    and mta: "map_target_args m fi op segs mapping = Inr (operands, snd (create_hole m fi))"
    by auto
  from CustomCallOpLowering_mapped [OF at segs mp mta attrs nores] r
  show ?thesis using segs attrs mta by auto
qed

lemma custom_call_direct_success:
  assumes at: "op_at m (fi, bi, oi) = Some op"
    and kind: "opKind op = CustomCallOp"
    and mp: "getTargetArgMapping op = None"
    and run: "applyPatterns m (fi, bi, oi) = Inr (success, m')"
  shows "\<exists>segs av ctn.
       getAttr op ''operand_segment_sizes'' = Some (DenseI32ArrayAttr segs) \<and> 1 < length segs
     \<and> getAttr op ''api_version'' = Some av \<and> getAttr op ''call_target_name'' = Some ctn
     \<and> m' = map_block fi bi
         (replace_at oi [custom_call_op (getOperands op) (scast (segs ! 1)) av ctn])
         (snd (GetOrCreate m ''xla.cpu.custom_call'' (map getType (getOperands op)) []))"
proof -
  have r: "CustomCallOpLowering m (fi, bi, oi) op = Inr (success, m')"
    using run at kind by (simp add: applyPatterns_def)
  from CustomCallOpLowering_InrD [OF r] mp obtain segs av ctn where
    segs: "getAttr op ''operand_segment_sizes'' = Some (DenseI32ArrayAttr segs)" "1 < length segs"
    and attrs: "getAttr op ''api_version'' = Some av" "getAttr op ''call_target_name'' = Some ctn"
    and nores: "getResults op = []"
    by auto
  from CustomCallOpLowering_direct [OF at segs mp attrs nores] r
  show ?thesis using segs attrs by auto
qed

lemmas example_defs =
  single_op_module_def mapped_custom_call_def covering_custom_call_def plain_custom_call_def
  two_custom_calls_module_def mapped_lowered_def covering_lowered_def plain_lowered_def
  two_custom_calls_after_first_def two_custom_calls_lowered_def custom_call_decl_def
  custom_call_op_def f32_4_def f32_8_def f32_4x4_def hole_type_def

lemma replicate_numeral_Cons: "replicate (numeral k) x = x # replicate (pred_numeral k) x"
  by (simp add: numeral_eq_Suc)

lemma run_mapped:
  "applyPatterns (single_op_module mapped_custom_call) (0, 0, 0) = Inr (success, mapped_lowered)"
  by (simp add: lowering_defs example_defs replicate_numeral_Cons)



lemma run_two_first:
  "applyPatterns two_custom_calls_module (0, 0, 0) = Inr (success, two_custom_calls_after_first)"
  by (simp add: lowering_defs example_defs replicate_numeral_Cons)

lemma run_two_second:
  "applyPatterns two_custom_calls_after_first (0, 0, 2) = Inr (success, two_custom_calls_lowered)"
  by (simp add: lowering_defs example_defs replicate_numeral_Cons)


lemma normalize_operands_props:
  "normalize_operands vs nv = Inr (created, new_operands, new_operand_types, nv') \<Longrightarrow>
     length new_operands = length vs
   \<and> new_operand_types = map getType new_operands
   \<and> new_operand_types = map (\<lambda>v. default_layout_type (getType v)) vs
   \<and> created = concat (map2 normalization_ops vs new_operands)
   \<and> list_all (\<lambda>v. isa_MemRefType (getType v)) vs"
proof (induction vs arbitrary: nv created new_operands new_operand_types nv')
  case Nil
  then show ?case by simp
next
  case (Cons v vs)
  from Cons.prems obtain shape elt lay where ty: "getType v = MemRefType shape elt lay"
    by (auto split: ty.splits)
  show ?case
  proof (cases "isIdentity lay")
    case True
    with Cons.prems ty obtain c os ts where
      rest: "normalize_operands vs nv = Inr (c, os, ts, nv')"
      and eq: "created = c" "new_operands = v # os" "new_operand_types = MemRefType shape elt lay # ts"
      by (auto split: sum.splits)
    have lay: "lay = IdentityLayout"
      using True by (cases lay) simp_all
    show ?thesis
      using Cons.IH [OF rest] eq ty True lay by (auto simp: normalization_ops_def)
  next
    case False
    with Cons.prems ty obtain c os ts where
      rest: "normalize_operands vs (Suc nv) = Inr (c, os, ts, nv')"
      and eq: "created = alloc_op (Val nv (MemRefType shape elt IdentityLayout))
                 # copy_op v (Val nv (MemRefType shape elt IdentityLayout)) # c"
        "new_operands = Val nv (MemRefType shape elt IdentityLayout) # os"
        "new_operand_types = MemRefType shape elt IdentityLayout # ts"
      by (auto simp: Let_def split: sum.splits)
    show ?thesis
      using Cons.IH [OF rest] eq ty False by (auto simp: normalization_ops_def)
  qed
qed


lemma normalize_operands_total:
  "list_all (\<lambda>v. isa_MemRefType (getType v)) vs \<Longrightarrow> \<exists>r. normalize_operands vs nv = Inr r"
proof (induction vs arbitrary: nv)
  case Nil
  then show ?case by simp
next
  case (Cons v vs)
  then obtain shape elt lay where ty: "getType v = MemRefType shape elt lay"
    by (cases "getType v") auto
  have rest: "list_all (\<lambda>v. isa_MemRefType (getType v)) vs"
    using Cons.prems by simp
  obtain r1 where r1: "normalize_operands vs nv = Inr r1"
    using Cons.IH [OF rest, of nv] by blast
  obtain r2 where r2: "normalize_operands vs (Suc nv) = Inr r2"
    using Cons.IH [OF rest, of "Suc nv"] by blast
  show ?case
    using ty r1 r2 by (cases r1; cases r2) (auto simp: Let_def)
qed

lemma normalize_operands_BadCast:
  "\<not> list_all (\<lambda>v. isa_MemRefType (getType v)) vs \<Longrightarrow> normalize_operands vs nv = Inl BadCast"
proof (induction vs arbitrary: nv)
  case Nil
  then show ?case by simp
next
  case (Cons v vs)
  show ?case
  proof (cases "getType v")
    case (MemRefType shape elt lay)
    then have "\<not> list_all (\<lambda>v. isa_MemRefType (getType v)) vs"
      using Cons.prems by simp
    then show ?thesis
      using Cons.IH MemRefType by (simp add: Let_def)
  qed simp_all
qed

lemma erase_after_insert:
  "oi \<le> length blk \<Longrightarrow>
     replace_at (Suc (oi + length cs)) [] (insert_before oi (cs @ [c]) blk)
       = take oi blk @ cs @ c # drop (Suc oi) blk"
  by (simp add: replace_at_def insert_before_def min_def)

lemma AllReduceLowering_success:
  assumes at: "op_at m (fi, bi, oi) = Some op"
    and run: "AllReduceLowering m (fi, bi, oi) op = Inr (success, m')"
  shows "\<exists>created new_operands new_operand_types nv.
       normalize_operands (getOperands op) (next_value m)
         = Inr (created, new_operands, new_operand_types, nv)
     \<and> m' = map_block fi bi
         (\<lambda>blk. take oi blk @ created
            @ [all_reduce_call ''xla.cpu.all_reduce'' new_operands op] @ drop (Suc oi) blk)
         (snd (GetOrCreate (m\<lparr>next_value := nv\<rparr>) ''xla.cpu.all_reduce'' new_operand_types []))"
proof -
  from run obtain created new_operands new_operand_types nv where
    norm: "normalize_operands (getOperands op) (next_value m)
         = Inr (created, new_operands, new_operand_types, nv)"
    by (auto simp: AllReduceLowering_def split: list.splits if_splits sum.splits)
  let ?g = "GetOrCreate (m\<lparr>next_value := nv\<rparr>) ''xla.cpu.all_reduce'' new_operand_types []"
  let ?call = "all_reduce_call ''xla.cpu.all_reduce'' new_operands op"
  let ?m2 = "map_block fi bi (insert_before oi (created @ [?call])) (snd ?g)"
  have name: "declName (fst ?g) = ''xla.cpu.all_reduce''"
    by (rule GetOrCreate_name)
  have v: "fi < length (funcs (snd ?g))" "bi < length (getBlocks (funcs (snd ?g) ! fi))"
    "oi \<le> length (block_at (snd ?g) fi bi)"
    using op_at_SomeD [OF at] by (simp_all add: block_at_def)
  from run norm name have m': "m' = map_block fi bi (replace_at (oi + length created + 1) []) ?m2"
    by (auto simp: AllReduceLowering_def eraseOp_def Let_def
             split: list.splits if_splits sum.splits prod.splits)
  have "map_block fi bi (replace_at (oi + length created + 1) []) ?m2
      = map_block fi bi (\<lambda>blk. take oi blk @ created @ [?call] @ drop (Suc oi) blk) (snd ?g)"
    unfolding map_block_map_block [OF v(1,2)]
    by (rule map_block_cong) (use v(3) in \<open>simp add: erase_after_insert\<close>)
  then show ?thesis
    using norm m' by auto
qed

lemmas all_reduce_example_defs =
  strided_f32_4_def strided_all_reduce_def all_reduce_decl_def strided_lowered_def
  plain_all_reduce_def plain_all_reduce_lowered_def mixed_all_reduce_def

lemma run_strided:
  "applyPatterns (single_op_module strided_all_reduce) (0, 0, 0) = Inr (success, strided_lowered)"
  by (simp add: lowering_defs example_defs all_reduce_example_defs)

lemma run_plain_all_reduce:
  "applyPatterns (single_op_module plain_all_reduce) (0, 0, 0)
     = Inr (success, plain_all_reduce_lowered)"
  by (simp add: lowering_defs example_defs all_reduce_example_defs)





lemma run_mixed:
  "applyPatterns (single_op_module mixed_all_reduce) (0, 0, 0) = Inl BadCast"
  by (simp add: lowering_defs example_defs all_reduce_example_defs)

lemma getAttr_setAttr:
  "getAttr (setAttr k v c) name = (if name = k then Some v else getAttr c name)"
  by (simp add: getAttr_def setAttr_def update_conv')

lemma fold_setAttr_fields:
  "opKind (fold (\<lambda>(name, v). setAttr name v) as c) = opKind c"
  "getOperands (fold (\<lambda>(name, v). setAttr name v) as c) = getOperands c"
  "getResults (fold (\<lambda>(name, v). setAttr name v) as c) = getResults c"
  by (induction as arbitrary: c; simp add: setAttr_def split: prod.splits)+

lemma getAttr_fold_setAttr:
  "distinct (map fst as) \<Longrightarrow>
     getAttr (fold (\<lambda>(name, v). setAttr name v) as c) name
       = (case map_of as name of Some v \<Rightarrow> Some v | None \<Rightarrow> getAttr c name)"
proof (induction as arbitrary: c)
  case Nil
  then show ?case by simp
next
  case (Cons a as)
  obtain k v where a: "a = (k, v)" by (cases a)
  have "map_of as k = None"
    using Cons.prems a by (simp add: map_of_eq_None_iff)
  then show ?case
    using Cons.IH [of "setAttr k v c"] Cons.prems a
    by (auto simp: getAttr_setAttr split: option.splits)
qed

lemma all_reduce_call_fields:
  "opKind (all_reduce_call callee new_operands op) = CallOp callee"
  "getOperands (all_reduce_call callee new_operands op) = new_operands"
  "getResults (all_reduce_call callee new_operands op) = []"
  by (simp_all add: all_reduce_call_def fold_setAttr_fields setAttr_def new_call_def)

lemma all_reduce_call_attr:
  assumes "distinct (map fst (getAttrs op))"
  shows "getAttr (all_reduce_call callee new_operands op) name
       = (case getAttr op name of Some v \<Rightarrow> Some v | None \<Rightarrow> map_of all_reduce_defaults name)"
proof -
  let ?c = "setAttr ''op_id'' (I64IntegerAttr 0)
     (setAttr ''use_global_device_ids'' (I32IntegerAttr 0) (new_call callee [] new_operands))"
  have "getAttr (new_call callee [] new_operands) name = None"
    by (simp add: getAttr_def new_call_def)
  then have "getAttr ?c name = map_of all_reduce_defaults name"
    by (simp add: getAttr_setAttr all_reduce_defaults_def)
  moreover have "getAttr (all_reduce_call callee new_operands op) name
      = (case map_of (getAttrs op) name of Some v \<Rightarrow> Some v | None \<Rightarrow> getAttr ?c name)"
    unfolding all_reduce_call_def by (rule getAttr_fold_setAttr [OF assms])
  ultimately show ?thesis
    by (simp add: getAttr_def split: option.splits)
qed

lemma all_reduce_block:
  assumes at: "op_at m (fi, bi, oi) = Some op"
  shows "block_at (map_block fi bi g (snd (GetOrCreate (m\<lparr>next_value := nv\<rparr>) t i r))) fi bi
     = g (block_at m fi bi)"
proof -
  let ?m1 = "snd (GetOrCreate (m\<lparr>next_value := nv\<rparr>) t i r)"
  have "fi < length (funcs ?m1)" "bi < length (getBlocks (funcs ?m1 ! fi))"
    using op_at_SomeD [OF at] by simp_all
  from block_at_map_block [OF this] show ?thesis
    by (simp add: block_at_def)
qed

lemma all_reduce_success:
  assumes at: "op_at m (fi, bi, oi) = Some op"
    and kind: "opKind op = AllReduceOp"
    and run: "applyPatterns m (fi, bi, oi) = Inr (success, m')"
  shows "\<exists>created new_operands new_operand_types nv.
       normalize_operands (getOperands op) (next_value m)
         = Inr (created, new_operands, new_operand_types, nv)
     \<and> block_at m' fi bi = take oi (block_at m fi bi) @ created
          @ [all_reduce_call ''xla.cpu.all_reduce'' new_operands op]
          @ drop (Suc oi) (block_at m fi bi)
     \<and> lookup_decl m' ''xla.cpu.all_reduce''
          = (case lookup_decl m ''xla.cpu.all_reduce'' of
               Some d \<Rightarrow> Some d
             | None \<Rightarrow> Some \<lparr>declName = ''xla.cpu.all_reduce'',
                  declInputs = new_operand_types, declResults = []\<rparr>)"
proof -
  have r: "AllReduceLowering m (fi, bi, oi) op = Inr (success, m')"
    using run at kind by (simp add: applyPatterns_def)
  from AllReduceLowering_success [OF at r] obtain created new_operands new_operand_types nv where
    norm: "normalize_operands (getOperands op) (next_value m)
         = Inr (created, new_operands, new_operand_types, nv)"
    and m': "m' = map_block fi bi
         (\<lambda>blk. take oi blk @ created
            @ [all_reduce_call ''xla.cpu.all_reduce'' new_operands op] @ drop (Suc oi) blk)
         (snd (GetOrCreate (m\<lparr>next_value := nv\<rparr>) ''xla.cpu.all_reduce'' new_operand_types []))"
    by blast
  have blk: "block_at m' fi bi = take oi (block_at m fi bi) @ created
          @ [all_reduce_call ''xla.cpu.all_reduce'' new_operands op]
          @ drop (Suc oi) (block_at m fi bi)"
    unfolding m' by (rule all_reduce_block [OF at])
  have "lookup_decl m' ''xla.cpu.all_reduce''
      = lookup_decl (snd (GetOrCreate (m\<lparr>next_value := nv\<rparr>) ''xla.cpu.all_reduce''
          new_operand_types [])) ''xla.cpu.all_reduce''"
    unfolding m' by (simp add: lookup_decl_def)
  also have "\<dots> = (case lookup_decl m ''xla.cpu.all_reduce'' of
               Some d \<Rightarrow> Some d
             | None \<Rightarrow> Some \<lparr>declName = ''xla.cpu.all_reduce'',
                  declInputs = new_operand_types, declResults = []\<rparr>)"
    by (simp add: lookup_decl_GetOrCreate) (simp add: lookup_decl_def)
  finally show ?thesis
    using norm blk by blast
qed

lemma sum_list_map_update:
  fixes h :: "'a \<Rightarrow> nat"
  shows "i < length xs \<Longrightarrow>
     sum_list (map h (xs[i := y])) + h (xs ! i) = sum_list (map h xs) + h y"
proof (induction xs arbitrary: i)
  case Nil
  then show ?case by simp
next
  case (Cons x xs)
  then show ?case by (cases i) auto
qed

lemma length_filter_concat:
  "length (filter P (concat xss)) = sum_list (map (\<lambda>xs. length (filter P xs)) xss)"
  by (induction xss) auto

lemma length_filter_concat_concat:
  "length (filter P (concat (concat (map h fs))))
     = sum_list (map (\<lambda>f. sum_list (map (\<lambda>b. length (filter P b)) (h f))) fs)"
  by (induction fs) (auto simp: length_filter_concat)

lemma count_matchable_sum:
  "count_matchable m
     = sum_list (map (\<lambda>f. sum_list (map (\<lambda>b. length (filter matchable b)) (getBlocks f)))
         (funcs m))"
  by (simp add: count_matchable_def all_operations_def length_filter_concat_concat)

lemma count_matchable_map_block:
  assumes "fi < length (funcs m)" "bi < length (getBlocks (funcs m ! fi))"
  shows "count_matchable (map_block fi bi g m) + length (filter matchable (block_at m fi bi))
     = count_matchable m + length (filter matchable (g (block_at m fi bi)))"
proof -
  let ?cb = "\<lambda>b. length (filter matchable b)"
  let ?cf = "\<lambda>f. sum_list (map ?cb (getBlocks f))"
  let ?f = "funcs m ! fi"
  let ?f' = "?f\<lparr>getBlocks := (getBlocks ?f)[bi := g (getBlocks ?f ! bi)]\<rparr>"
  have a: "sum_list (map ?cf ((funcs m)[fi := ?f'])) + ?cf ?f = sum_list (map ?cf (funcs m)) + ?cf ?f'"
    using assms(1) by (rule sum_list_map_update)
  have b: "?cf ?f' + ?cb (getBlocks ?f ! bi) = ?cf ?f + ?cb (g (getBlocks ?f ! bi))"
    using sum_list_map_update [OF assms(2), of ?cb "g (getBlocks ?f ! bi)"] by simp
  show ?thesis
    using a b by (simp add: count_matchable_sum block_at_def)
qed

lemma count_matchable_funcs:
  "funcs m1 = funcs m \<Longrightarrow> count_matchable m1 = count_matchable m"
  by (simp add: count_matchable_def all_operations_def)

lemma count_matchable_replaced:
  assumes at: "op_at m (fi, bi, oi) = Some op"
    and op: "matchable op"
    and news: "filter matchable news = []"
    and same: "funcs m1 = funcs m"
  shows "Suc (count_matchable (map_block fi bi
            (\<lambda>blk. take oi blk @ news @ drop (Suc oi) blk) m1)) = count_matchable m"
proof -
  let ?blk = "block_at m fi bi"
  have v: "fi < length (funcs m1)" "bi < length (getBlocks (funcs m1 ! fi))"
    and oi: "oi < length ?blk" "?blk ! oi = op"
    using op_at_SomeD [OF at] same by (simp_all add: block_at_def)
  have blk1: "block_at m1 fi bi = ?blk"
    using same by (simp add: block_at_def)
  have "filter matchable ?blk
      = filter matchable (take oi ?blk) @ op # filter matchable (drop (Suc oi) ?blk)"
    using id_take_nth_drop [OF oi(1)] oi(2) op
    by (metis filter.simps(2) filter_append)
  then have "length (filter matchable ?blk)
      = Suc (length (filter matchable (take oi ?blk @ news @ drop (Suc oi) ?blk)))"
    using news by simp
  then show ?thesis
    using count_matchable_map_block [OF v, of "\<lambda>blk. take oi blk @ news @ drop (Suc oi) blk"]
      blk1 count_matchable_funcs [OF same]
    by simp
qed

lemma replace_at_fun: "replace_at oi news = (\<lambda>blk. take oi blk @ news @ drop (Suc oi) blk)"
  by (simp add: fun_eq_iff replace_at_def)

lemma not_matchable_created:
  "\<not> matchable (new_call callee res operands)"
  "\<not> matchable (custom_call_op operands n av ctn)"
  "\<not> matchable (all_reduce_call callee operands op)"
  "\<not> matchable (alloca_op v)"
  "\<not> matchable (alloc_op v)"
  "\<not> matchable (copy_op v v')"
  by (simp_all add: matchable_def new_call_def custom_call_op_def all_reduce_call_fields
      alloca_op_def alloc_op_def copy_op_def)

lemma not_matchable_normalization:
  "filter matchable (concat (map2 normalization_ops vs vs')) = []"
  by (induction vs arbitrary: vs'; case_tac vs')
     (auto simp: normalization_ops_def not_matchable_created)

lemma count_matchable_create_hole:
  assumes "fi < length (funcs m)" "getBlocks (funcs m ! fi) \<noteq> []"
  shows "count_matchable (snd (create_hole m fi)) = count_matchable m"
proof -
  let ?m0 = "m\<lparr>next_value := Suc (next_value m)\<rparr>"
  have v: "fi < length (funcs ?m0)" "0 < length (getBlocks (funcs ?m0 ! fi))"
    using assms by simp_all
  have "count_matchable (map_block fi 0 (\<lambda>blk. alloca_op (Val (next_value m) hole_type) # blk) ?m0)
      = count_matchable ?m0"
    using count_matchable_map_block [OF v, of "\<lambda>blk. alloca_op (Val (next_value m) hole_type) # blk"]
    by (simp add: not_matchable_created)
  then show ?thesis
    by (simp add: create_hole_def Let_def count_matchable_funcs [of ?m0 m])
qed

lemma xfeed_decreases:
  assumes at: "op_at m (fi, bi, oi) = Some op" and op: "matchable op"
    and run: "LowerXfeed m (fi, bi, oi) op t = Inr (success, m')"
  shows "Suc (count_matchable m') = count_matchable m"
proof -
  have nores: "getResults op = []"
    using run
    by (auto simp: LowerXfeed_def replaceOpWithNewCallOp_def Let_def
             split: prod.splits if_splits sum.splits)
  have m': "m' = map_block fi bi (replace_at oi [new_call t [] (getOperands op)])
         (snd (GetOrCreate m t (map getType (getOperands op)) []))"
    using LowerXfeed_result [OF at nores, of t] run by simp
  show ?thesis
    unfolding m' replace_at_fun
    by (rule count_matchable_replaced [OF at op]) (simp_all add: not_matchable_created)
qed

lemma id_decreases:
  assumes at: "op_at m (fi, bi, oi) = Some op" and op: "matchable op"
    and run: "IdOpLowering t m (fi, bi, oi) op = Inr (success, m')"
  shows "Suc (count_matchable m') = count_matchable m"
proof -
  obtain callee m1 where g: "GetOrCreate m t [] [ScalarType I32] = (callee, m1)"
    by (cases "GetOrCreate m t [] [ScalarType I32]")
  have fs: "funcs m1 = funcs m"
    using GetOrCreate_funcs [of m t "[]" "[ScalarType I32]"] g by simp
  from run g obtain c where m': "m' = map_block fi bi (replace_at oi [c]) m1"
    and c: "c = new_call (declName callee)
        (map2 (\<lambda>v t. Val (value_id v) t) (getResults op) [ScalarType I32]) []"
    by (auto simp: IdOpLowering_def replaceOpWithNewCallOp_def split: if_splits)
  show ?thesis
    unfolding m' replace_at_fun
    by (rule count_matchable_replaced [OF at op _ fs]) (simp add: c not_matchable_created)
qed

lemma custom_call_decreases:
  assumes at: "op_at m (fi, bi, oi) = Some op" and kind: "opKind op = CustomCallOp"
    and run: "applyPatterns m (fi, bi, oi) = Inr (success, m')"
  shows "Suc (count_matchable m') = count_matchable m"
proof (cases "getTargetArgMapping op")
  case None
  from custom_call_direct_success [OF at kind None run] obtain c m1 where
    m': "m' = map_block fi bi (replace_at oi [c]) m1"
    and c: "\<not> matchable c" and fs: "funcs m1 = funcs m"
    using not_matchable_created(2) GetOrCreate_funcs by blast
  show ?thesis
    unfolding m' replace_at_fun
    by (rule count_matchable_replaced [OF at _ _ fs]) (simp add: kind matchable_def, simp add: c)
next
  case (Some mapping)
  let ?m1 = "snd (create_hole m fi)"
  from custom_call_mapped_success [OF at kind Some run] obtain c m2 where
    m': "m' = map_block fi bi (replace_at (if bi = 0 then Suc oi else oi) [c]) m2"
    and c: "\<not> matchable c" and fs: "funcs m2 = funcs ?m1"
    using not_matchable_created(2) GetOrCreate_funcs by blast
  have at1: "op_at ?m1 (fi, bi, if bi = 0 then Suc oi else oi) = Some op"
    using op_at_create_hole [OF at] by (simp add: shifted_def)
  have v: "fi < length (funcs m)" "getBlocks (funcs m ! fi) \<noteq> []"
    using op_at_SomeD [OF at] by auto
  have "Suc (count_matchable m') = count_matchable ?m1"
    unfolding m' replace_at_fun
    by (rule count_matchable_replaced [OF at1 _ _ fs]) (simp add: kind matchable_def, simp add: c)
  then show ?thesis
    using count_matchable_create_hole [OF v] by simp
qed

lemma all_reduce_decreases:
  assumes at: "op_at m (fi, bi, oi) = Some op" and kind: "opKind op = AllReduceOp"
    and run: "applyPatterns m (fi, bi, oi) = Inr (success, m')"
  shows "Suc (count_matchable m') = count_matchable m"
proof -
  have r: "AllReduceLowering m (fi, bi, oi) op = Inr (success, m')"
    using run at kind by (simp add: applyPatterns_def)
  then have op: "matchable op"
    using kind by (auto simp: AllReduceLowering_def matchable_def split: list.splits if_splits)
  from AllReduceLowering_success [OF at r] obtain created new_operands new_operand_types nv where
    norm: "normalize_operands (getOperands op) (next_value m)
         = Inr (created, new_operands, new_operand_types, nv)"
    and m': "m' = map_block fi bi
         (\<lambda>blk. take oi blk @ created
            @ [all_reduce_call ''xla.cpu.all_reduce'' new_operands op] @ drop (Suc oi) blk)
         (snd (GetOrCreate (m\<lparr>next_value := nv\<rparr>) ''xla.cpu.all_reduce'' new_operand_types []))"
    by blast
  have created: "filter matchable created = []"
    using normalize_operands_props [OF norm] not_matchable_normalization by auto
  have "Suc (count_matchable (map_block fi bi
         (\<lambda>blk. take oi blk
            @ (created @ [all_reduce_call ''xla.cpu.all_reduce'' new_operands op])
            @ drop (Suc oi) blk)
         (snd (GetOrCreate (m\<lparr>next_value := nv\<rparr>) ''xla.cpu.all_reduce'' new_operand_types []))))
      = count_matchable m"
    by (rule count_matchable_replaced [OF at op]) (simp_all add: created not_matchable_created)
  then show ?thesis
    unfolding m' by simp
qed

lemma applyPatterns_decreases:
  assumes run: "applyPatterns m p = Inr (success, m')"
  shows "Suc (count_matchable m') = count_matchable m"
proof -
  obtain fi bi oi where p: "p = (fi, bi, oi)" by (cases p)
  from run obtain op where at: "op_at m (fi, bi, oi) = Some op"
    unfolding p by (auto simp: applyPatterns_def split: option.splits)
  show ?thesis
  proof (cases "opKind op")
    case CustomCallOp
    then show ?thesis using custom_call_decreases [OF at] run p by simp
  next
    case InfeedOp
    then have "LowerXfeed m (fi, bi, oi) op ''xla.cpu.infeed'' = Inr (success, m')"
      using run at p by (simp add: applyPatterns_def InfeedOpLowering_def)
    from xfeed_decreases [OF at _ this] InfeedOp show ?thesis
      by (simp add: matchable_def)
  next
    case OutfeedOp
    then have "LowerXfeed m (fi, bi, oi) op ''xla.cpu.outfeed'' = Inr (success, m')"
      using run at p by (simp add: applyPatterns_def OutfeedOpLowering_def)
    from xfeed_decreases [OF at _ this] OutfeedOp show ?thesis
      by (simp add: matchable_def)
  next
    case PartitionIdOp
    then have "IdOpLowering ''xla.cpu.partition_id'' m (fi, bi, oi) op = Inr (success, m')"
      using run at p by (simp add: applyPatterns_def)
    from id_decreases [OF at _ this] PartitionIdOp show ?thesis
      by (simp add: matchable_def)
  next
    case ReplicaIdOp
    then have "IdOpLowering ''xla.cpu.replica_id'' m (fi, bi, oi) op = Inr (success, m')"
      using run at p by (simp add: applyPatterns_def)
    from id_decreases [OF at _ this] ReplicaIdOp show ?thesis
      by (simp add: matchable_def)
  next
    case AllReduceOp
    then show ?thesis using all_reduce_decreases [OF at] run p by simp
  qed (use run at p in \<open>simp_all add: applyPatterns_def\<close>)
qed

lemma first_match_Some:
  "first_match m ps = Inr (Some m') \<Longrightarrow> \<exists>p \<in> set ps. applyPatterns m p = Inr (success, m')"
  by (induction ps) (auto split: sum.splits prod.splits logical_result.splits)

lemma first_match_None:
  "first_match m ps = Inr None \<Longrightarrow> p \<in> set ps \<Longrightarrow> \<exists>m''. applyPatterns m p = Inr (failure, m'')"
  by (induction ps) (auto split: sum.splits prod.splits logical_result.splits)

lemma op_at_positions:
  assumes "op_at m (fi, bi, oi) = Some op"
  shows "(fi, bi, oi) \<in> set (positions m)"
proof -
  have v: "fi \<in> {0 ..< length (funcs m)}" "bi \<in> {0 ..< length (getBlocks (funcs m ! fi))}"
    "oi \<in> {0 ..< length (getBlocks (funcs m ! fi) ! bi)}"
    using op_at_SomeD [OF assms] by simp_all
  have "(fi, bi, oi) \<in> (\<lambda>oi. (fi, bi, oi)) ` {0 ..< length (getBlocks (funcs m ! fi) ! bi)}"
    using v(3) by (rule imageI)
  with v(1,2) have "\<exists>x\<in>{0..<length (funcs m)}.
           \<exists>xa\<in>{0..<length (getBlocks (funcs m ! x))}.
              (fi, bi, oi) \<in> (\<lambda>xb. (x, xa, xb)) ` {0..<length (getBlocks (funcs m ! x) ! xa)}"
    by (intro bexI [of _ fi] bexI [of _ bi])
  then show ?thesis
    by (simp add: positions_def)
qed

termination applyPatternsGreedily
proof (relation "measure count_matchable")
  show "wf (measure count_matchable)" by simp
next
  fix m x m'
  assume "first_match m (positions m) = Inr x" "x = Some m'"
  then obtain p where "applyPatterns m p = Inr (success, m')"
    using first_match_Some by blast
  from applyPatterns_decreases [OF this]
  show "(m', m) \<in> measure count_matchable" by simp
qed

lemma applyPatternsGreedily_fixed_point:
  "applyPatternsGreedily m = Inr m' \<Longrightarrow> first_match m' (positions m') = Inr None"
proof (induction m rule: applyPatternsGreedily.induct)
  case (1 m)
  show ?case
  proof (cases "first_match m (positions m)")
    case (Inl e)
    then show ?thesis using "1.prems" by simp
  next
    case (Inr x)
    show ?thesis
    proof (cases x)
      case None
      then show ?thesis using "1.prems" Inr by simp
    next
      case (Some m1)
      then have "applyPatternsGreedily m1 = Inr m'"
        using "1.prems" Inr by simp
      from "1.IH" [OF Inr Some this] show ?thesis .
    qed
  qed
qed

lemma no_match_left:
  assumes "first_match m (positions m) = Inr None"
  shows "applyPatterns m p \<noteq> Inr (success, m'')"
proof (cases "op_at m p")
  case None
  then show ?thesis by (simp add: applyPatterns_def)
next
  case (Some op)
  obtain fi bi oi where p: "p = (fi, bi, oi)" by (cases p)
  have "p \<in> set (positions m)"
    using Some op_at_positions unfolding p by blast
  from first_match_None [OF assms this] show ?thesis by auto
qed

lemma run_infeed:
  "applyPatterns infeed_module (0, 0, 0) = Inr (success, infeed_lowered)"
  by (simp add: lowering_defs infeed_module_def infeed_lowered_def f32_4x4_def f32_8_def)

lemma run_infeed_greedily:
  "applyPatternsGreedily infeed_module = Inr infeed_lowered"
proof -
  have p0: "positions infeed_module = [(0, 0, 0)]"
    by (simp add: positions_def infeed_module_def)
  have p1: "positions infeed_lowered = [(0, 0, 0)]"
    by (simp add: positions_def infeed_lowered_def)
  have "applyPatterns infeed_lowered (0, 0, 0) = Inr (failure, infeed_lowered)"
    by (simp add: applyPatterns_def op_at_def infeed_lowered_def)
  then have "applyPatternsGreedily infeed_lowered = Inr infeed_lowered"
    by (subst applyPatternsGreedily.simps) (simp add: p1)
  then show ?thesis
    by (subst applyPatternsGreedily.simps) (simp add: p0 run_infeed)
qed

lemma mapped_lowering_facts:
  assumes at: "op_at m (fi, bi, oi) = Some op"
    and kind: "opKind op = CustomCallOp"
    and mp: "getTargetArgMapping op = Some mapping"
    and run: "applyPatterns m (fi, bi, oi) = Inr (success, m')"
  shows "\<exists>call.
       op_at m' (shifted (fi, bi, oi)) = Some call
     \<and> opKind call = CallOp ''xla.cpu.custom_call''
     \<and> block_at m' fi 0 = alloca_op (Val (next_value m) hole_type)
          # (if bi = 0 then replace_at oi [call] (block_at m fi 0) else block_at m fi 0)
     \<and> (\<forall>k < length (getOperands call).
           k \<notin> unat ` set (getArgsToTargetArgs mapping) \<longrightarrow>
           k \<notin> (\<lambda>t. unat (getNumArgs mapping + t)) ` set (getResultsToTargetResults mapping) \<longrightarrow>
           getOperands call ! k = Val (next_value m) hole_type)
     \<and> next_value m' = Suc (next_value m)"
proof -
  from custom_call_mapped_success [OF at kind mp run] obtain segs operands av ctn where
    mta: "map_target_args m fi op segs mapping = Inr (operands, snd (create_hole m fi))"
    and m': "m' = map_block fi bi
         (replace_at (if bi = 0 then Suc oi else oi)
            [custom_call_op operands (getNumResults mapping) av ctn])
         (snd (GetOrCreate (snd (create_hole m fi)) ''xla.cpu.custom_call''
                 (map getType operands) []))"
    by blast
  let ?call = "custom_call_op operands (getNumResults mapping) av ctn"
  have "op_at m' (shifted (fi, bi, oi)) = Some ?call"
    unfolding m' by (rule mapped_call_at [OF at])
  moreover have "block_at m' fi 0 = alloca_op (Val (next_value m) hole_type)
          # (if bi = 0 then replace_at oi [?call] (block_at m fi 0) else block_at m fi 0)"
    unfolding m' by (rule mapped_entry_block [OF at])
  moreover have "getOperands ?call = operands" "opKind ?call = CallOp ''xla.cpu.custom_call''"
    by (simp_all add: custom_call_op_def)
  moreover have "next_value m' = Suc (next_value m)"
    unfolding m' by (simp add: create_hole_shape)
  ultimately show ?thesis
    using map_target_args_InrD(3) [OF mta] by (intro exI [of _ ?call]) simp
qed


subsection \<open>Infeed and outfeed become one call\<close>

text \<open>
  Claim C7, as amended. Take an infeed (outfeed) operation, which has no results, in a module
  where no declaration named \<open>xla.cpu.infeed\<close> (\<open>xla.cpu.outfeed\<close>) with another signature
  has been registered before. The lowering replaces it, at its own place in its block, by a
  single call to \<open>xla.cpu.infeed\<close> (\<open>xla.cpu.outfeed\<close>) that takes all operands unchanged and
  in the original order and has no results and no attributes; the rest of the block is as
  before, so the original operation is gone. The declaration of that name has the operand
  types as parameter types and no results.
\<close>

theorem xfeed_lowering:
  assumes at: "op_at m (fi, bi, oi) = Some op"
    and kind: "opKind op = InfeedOp \<or> opKind op = OutfeedOp"
    and nores: "getResults op = []"
    and target: "target = (if opKind op = InfeedOp then ''xla.cpu.infeed'' else ''xla.cpu.outfeed'')"
    and consistent: "case lookup_decl m target of None \<Rightarrow> True
        | Some d \<Rightarrow> declInputs d = map getType (getOperands op) \<and> declResults d = []"
  shows "\<exists>m'. applyPatterns m (fi, bi, oi) = Inr (success, m')
      \<and> block_at m' fi bi =
          take oi (block_at m fi bi)
          @ [\<lparr>opKind = CallOp target, getOperands = getOperands op, getResults = [],
               getAttrs = []\<rparr>]
          @ drop (Suc oi) (block_at m fi bi)
      \<and> lookup_decl m' target =
          Some \<lparr>declName = target, declInputs = map getType (getOperands op), declResults = []\<rparr>"
proof -
  let ?m1 = "snd (GetOrCreate m target (map getType (getOperands op)) [])"
  let ?m' = "map_block fi bi (replace_at oi [new_call target [] (getOperands op)]) ?m1"
  have valid: "fi < length (funcs m)" "bi < length (getBlocks (funcs m ! fi))"
    using op_at_SomeD [OF at] by simp_all
  have run: "applyPatterns m (fi, bi, oi) = Inr (success, ?m')"
    using kind at target LowerXfeed_result [OF at nores, of target]
    by (auto simp: applyPatterns_def InfeedOpLowering_def OutfeedOpLowering_def)
  have blk: "block_at ?m' fi bi = replace_at oi [new_call target [] (getOperands op)] (block_at m fi bi)"
    using valid by (simp add: block_at_map_block)
  have "lookup_decl ?m' target = lookup_decl ?m1 target"
    by (simp add: lookup_decl_def)
  also have "\<dots> = Some \<lparr>declName = target, declInputs = map getType (getOperands op), declResults = []\<rparr>"
  proof (cases "lookup_decl m target")
    case None
    then show ?thesis by (simp add: lookup_decl_GetOrCreate)
  next
    case (Some d)
    moreover have "declName d = target"
      using Some by (auto simp: lookup_decl_def find_Some_iff)
    ultimately show ?thesis
      using consistent by (simp add: lookup_decl_GetOrCreate)
  qed
  finally have decl: "lookup_decl ?m' target =
      Some \<lparr>declName = target, declInputs = map getType (getOperands op), declResults = []\<rparr>" .
  show ?thesis
    using run blk decl by (simp add: replace_at_def new_call_def)
qed

theorem xfeed_lowering_witness:
  "\<exists>m'. applyPatterns infeed_module (0, 0, 0) = Inr (success, m')
      \<and> block_at m' 0 0 =
          [\<lparr>opKind = CallOp ''xla.cpu.infeed'', getOperands = [Val 0 f32_4x4, Val 1 f32_8],
             getResults = [], getAttrs = []\<rparr>]
      \<and> lookup_decl m' ''xla.cpu.infeed'' =
          Some \<lparr>declName = ''xla.cpu.infeed'', declInputs = [f32_4x4, f32_8], declResults = []\<rparr>"
proof -
  let ?op = "\<lparr>opKind = InfeedOp, getOperands = [Val 0 f32_4x4, Val 1 f32_8],
           getResults = [], getAttrs = []\<rparr>"
  have at: "op_at infeed_module (0, 0, 0) = Some ?op"
    by (simp add: op_at_def infeed_module_def)
  have consistent: "case lookup_decl infeed_module ''xla.cpu.infeed'' of None \<Rightarrow> True
        | Some d \<Rightarrow> declInputs d = map getType (getOperands ?op) \<and> declResults d = []"
    by (simp add: lookup_decl_def infeed_module_def)
  show ?thesis
    using xfeed_lowering [OF at _ _ _ consistent]
    by (simp add: block_at_def infeed_module_def)
qed

text \<open>
  The claim as stated fails for a second infeed whose operand types differ from the first
  one's: the call to \<open>xla.cpu.infeed\<close> takes a buffer of 8 elements, the one declaration of
  that name has a parameter of 4 elements.
\<close>

theorem xfeed_declared_types_counterexample:
  "applyPatterns two_infeeds_module (0, 0, 0) = Inr (success, two_infeeds_after_first)
   \<and> applyPatterns two_infeeds_after_first (0, 0, 1) =
       Inr (success,
         \<lparr>funcs = [\<lparr>getName = ''main'', getBlocks =
            [[\<lparr>opKind = CallOp ''xla.cpu.infeed'', getOperands = [Val 0 f32_4],
               getResults = [], getAttrs = []\<rparr>,
              \<lparr>opKind = CallOp ''xla.cpu.infeed'', getOperands = [Val 1 f32_8],
               getResults = [], getAttrs = []\<rparr>]]\<rparr>],
          custom_calls =
            [\<lparr>declName = ''xla.cpu.infeed'', declInputs = [f32_4], declResults = []\<rparr>],
          next_value = 2\<rparr>)
   \<and> [f32_4] \<noteq> map getType [Val 1 f32_8]"
  by (simp add: applyPatterns_def op_at_def two_infeeds_module_def two_infeeds_after_first_def
      InfeedOpLowering_def LowerXfeed_def GetOrCreate_def replaceOpWithNewCallOp_def
      map_block_def replace_at_def new_call_def f32_4_def f32_8_def Let_def)

subsection \<open>The guard of the all-reduce pattern\<close>

text \<open>
  Claim C5. An all-reduce operation whose first operand is not of memref type is not matched:
  the pattern returns failure, which is no error, and the module is returned exactly as it
  was, so no call, allocation, copy or declaration has been introduced.
\<close>

theorem all_reduce_guard:
  assumes "op_at m p = Some op" and "opKind op = AllReduceOp"
    and "getOperands op = v # vs" and "\<not> isa_MemRefType (getType v)"
  shows "applyPatterns m p = Inr (failure, m)"
  using assms by (cases p) (simp add: applyPatterns_def AllReduceLowering_def)

theorem all_reduce_guard_witness:
  "applyPatterns scalar_all_reduce_module (0, 0, 0) = Inr (failure, scalar_all_reduce_module)"
proof -
  have at: "op_at scalar_all_reduce_module (0, 0, 0) =
      Some \<lparr>opKind = AllReduceOp, getOperands = [Val 0 (ScalarType F32), Val 1 f32_8],
           getResults = [], getAttrs = []\<rparr>"
    by (simp add: op_at_def scalar_all_reduce_module_def)
  show ?thesis
    using all_reduce_guard [OF at, of "Val 0 (ScalarType F32)" "[Val 1 f32_8]"] by simp
qed

subsection \<open>Operands of a custom call with a target-argument mapping\<close>

text \<open>
  Claim C2. A custom call that carries a well-formed target-argument mapping (one entry per
  source argument and result, each a distinct slot below the declared count) is lowered to a
  call of \<open>xla.cpu.custom_call\<close> without results whose operand list has length
  \<open>num_args + num_results\<close>: source argument \<open>i\<close> stands in the slot the argument mapping
  gives for \<open>i\<close>, source result \<open>j\<close> in slot \<open>num_args\<close> plus the slot the result mapping
  gives for \<open>j\<close>, and every other slot holds the hole value.
\<close>

theorem custom_call_mapped_operands:
  assumes at: "op_at m (fi, bi, oi) = Some op"
    and kind: "opKind op = CustomCallOp"
    and segs: "getAttr op ''operand_segment_sizes'' = Some (DenseI32ArrayAttr segs)"
      "1 < length segs"
    and mp: "getTargetArgMapping op = Some mapping"
    and wf: "well_formed_mapping mapping (getODSOperands 0 segs op) (getODSOperands 1 segs op)"
    and attrs: "getAttr op ''api_version'' = Some av" "getAttr op ''call_target_name'' = Some ctn"
    and nores: "getResults op = []"
  shows "\<exists>m' call.
       applyPatterns m (fi, bi, oi) = Inr (success, m')
     \<and> op_at m' (shifted (fi, bi, oi)) = Some call
     \<and> opKind call = CallOp ''xla.cpu.custom_call''
     \<and> getResults call = []
     \<and> length (getOperands call) = unat (getNumArgs mapping) + unat (getNumResults mapping)
     \<and> (\<forall>i < length (getODSOperands 0 segs op).
           getOperands call ! unat (getArgsToTargetArgs mapping ! i) = getODSOperands 0 segs op ! i)
     \<and> (\<forall>j < length (getODSOperands 1 segs op).
           getOperands call ! (unat (getNumArgs mapping) + unat (getResultsToTargetResults mapping ! j))
             = getODSOperands 1 segs op ! j)
     \<and> (\<forall>k < length (getOperands call).
           k \<notin> unat ` set (getArgsToTargetArgs mapping) \<longrightarrow>
           k \<notin> (\<lambda>t. unat (getNumArgs mapping) + unat t) ` set (getResultsToTargetResults mapping) \<longrightarrow>
           getOperands call ! k = Val (next_value m) hole_type)"
proof -
  from map_target_args_well_formed [OF wf, of m fi] obtain operands where
    mta: "map_target_args m fi op segs mapping = Inr (operands, snd (create_hole m fi))"
    and len: "length operands = unat (getNumArgs mapping) + unat (getNumResults mapping)"
    and args: "\<forall>i < length (getODSOperands 0 segs op).
           operands ! unat (getArgsToTargetArgs mapping ! i) = getODSOperands 0 segs op ! i"
    and outs: "\<forall>j < length (getODSOperands 1 segs op).
           operands ! (unat (getNumArgs mapping) + unat (getResultsToTargetResults mapping ! j))
             = getODSOperands 1 segs op ! j"
    by blast
  let ?call = "custom_call_op operands (getNumResults mapping) av ctn"
  let ?m' = "map_block fi bi (replace_at (if bi = 0 then Suc oi else oi) [?call])
         (snd (GetOrCreate (snd (create_hole m fi)) ''xla.cpu.custom_call''
                 (map getType operands) []))"
  have run: "applyPatterns m (fi, bi, oi) = Inr (success, ?m')"
    using CustomCallOpLowering_mapped [OF at segs mp mta attrs nores] at kind
    by (simp add: applyPatterns_def)
  have call: "op_at ?m' (shifted (fi, bi, oi)) = Some ?call"
    by (rule mapped_call_at [OF at])
  have small: "unat (getNumArgs mapping) + unat (getNumResults mapping) < 2 ^ 63"
    and rm: "\<And>t. t \<in> set (getResultsToTargetResults mapping) \<Longrightarrow> unat t < unat (getNumResults mapping)"
    using wf by (auto simp: well_formed_mapping_def list_all_iff)
  have slot: "unat (getNumArgs mapping + t) = unat (getNumArgs mapping) + unat t"
    if "t \<in> set (getResultsToTargetResults mapping)" for t
    using rm [OF that] small by (intro unat_add_small) simp
  have holes: "operands ! k = Val (next_value m) hole_type"
    if "k < length operands" "k \<notin> unat ` set (getArgsToTargetArgs mapping)"
      "k \<notin> (\<lambda>t. unat (getNumArgs mapping) + unat t) ` set (getResultsToTargetResults mapping)" for k
  proof -
    have "k \<notin> (\<lambda>t. unat (getNumArgs mapping + t)) ` set (getResultsToTargetResults mapping)"
      using that(3) slot by auto
    then show ?thesis
      using map_target_args_InrD(3) [OF mta that(1,2)] by simp
  qed
  have ops: "getOperands ?call = operands" "getResults ?call = []"
      "opKind ?call = CallOp ''xla.cpu.custom_call''"
    by (simp_all add: custom_call_op_def)
  show ?thesis
    using run call ops len args outs holes by (intro exI [of _ ?m'] exI [of _ ?call]) simp
qed

theorem custom_call_mapped_operands_witness:
  "\<exists>m' call.
       applyPatterns (single_op_module mapped_custom_call) (0, 0, 0) = Inr (success, m')
     \<and> op_at m' (0, 0, 1) = Some call
     \<and> opKind call = CallOp ''xla.cpu.custom_call''
     \<and> getResults call = []
     \<and> getOperands call = [Val 1 f32_8, Val 2 hole_type, Val 0 f32_4]"
proof -
  let ?m = "single_op_module mapped_custom_call"
  let ?mp = "\<lparr>getNumArgs = 3, getNumResults = 0, getArgsToTargetArgs = [2, 0],
             getResultsToTargetResults = []\<rparr>"
  have at: "op_at ?m (0, 0, 0) = Some mapped_custom_call"
    by (simp add: op_at_def single_op_module_def)
  have kind: "opKind mapped_custom_call = CustomCallOp"
    and nores: "getResults mapped_custom_call = []"
    and segs: "getAttr mapped_custom_call ''operand_segment_sizes'' = Some (DenseI32ArrayAttr [2, 0])"
    and mp: "getTargetArgMapping mapped_custom_call = Some ?mp"
    and av: "getAttr mapped_custom_call ''api_version'' = Some (I32IntegerAttr 1)"
    and ctn: "getAttr mapped_custom_call ''call_target_name'' = Some (StringAttr ''target'')"
    by (simp_all add: getAttr_def getTargetArgMapping_def mapped_custom_call_def)
  have args: "getODSOperands 0 [2, 0] mapped_custom_call = [Val 0 f32_4, Val 1 f32_8]"
    and outs: "getODSOperands 1 [2, 0] mapped_custom_call = []"
    by (simp_all add: getODSOperands_def mapped_custom_call_def)
  have wf: "well_formed_mapping ?mp (getODSOperands 0 [2, 0] mapped_custom_call)
      (getODSOperands 1 [2, 0] mapped_custom_call)"
    unfolding args outs by (simp add: well_formed_mapping_def)
  from custom_call_mapped_operands [OF at kind segs _ mp wf av ctn nores]
  obtain m' call where run: "applyPatterns ?m (0, 0, 0) = Inr (success, m')"
    and call: "op_at m' (shifted (0, 0, 0)) = Some call"
      "opKind call = CallOp ''xla.cpu.custom_call''" "getResults call = []"
    and len: "length (getOperands call) = 3"
    and written: "\<forall>i < 2. getOperands call ! unat ([2, 0 :: 64 word] ! i)
        = [Val 0 f32_4, Val 1 f32_8] ! i"
    and holes: "\<forall>k < length (getOperands call). k \<notin> unat ` set [2, 0 :: 64 word] \<longrightarrow>
        getOperands call ! k = Val (next_value ?m) hole_type"
    unfolding args outs by auto
  have s2: "getOperands call ! 2 = Val 0 f32_4"
    using written [rule_format, of 0] by simp
  have s0: "getOperands call ! 0 = Val 1 f32_8"
    using written [rule_format, of 1] by simp
  have s1: "getOperands call ! 1 = Val 2 hole_type"
    using holes [rule_format, of 1] len by (simp add: single_op_module_def)
  have "getOperands call = [Val 1 f32_8, Val 2 hole_type, Val 0 f32_4]"
    using len s0 s1 s2
    by (auto simp: list_eq_iff_nth_eq less_Suc_eq numeral_3_eq_3 numeral_2_eq_2)
  then show ?thesis
    using run call by (auto simp: shifted_def)
qed

subsection \<open>The hole placeholder\<close>



text \<open>
  Claim C1, as amended. The pattern has no cache for the hole: each lowering of a custom call
  with a target-argument mapping creates one new zero-length \<open>i8\<close> stack allocation in front
  of the entry block of the enclosing function, so the number of hole allocations there grows
  by one with every such custom call lowered in the function; the slots of the call that stay
  holes all hold the result of the allocation created for that call.
\<close>

theorem hole_alloca_per_lowering:
  assumes at: "op_at m (fi, bi, oi) = Some op"
    and kind: "opKind op = CustomCallOp"
    and mp: "getTargetArgMapping op = Some mapping"
    and run: "applyPatterns m (fi, bi, oi) = Inr (success, m')"
  shows "length (filter is_hole_alloca (block_at m' fi 0))
           = Suc (length (filter is_hole_alloca (block_at m fi 0)))
     \<and> hd (block_at m' fi 0) = alloca_op (Val (next_value m) hole_type)
     \<and> next_value m' = Suc (next_value m)
     \<and> (\<exists>call. op_at m' (shifted (fi, bi, oi)) = Some call
          \<and> (\<forall>k < length (getOperands call).
                k \<notin> unat ` set (getArgsToTargetArgs mapping) \<longrightarrow>
                k \<notin> (\<lambda>t. unat (getNumArgs mapping + t))
                      ` set (getResultsToTargetResults mapping) \<longrightarrow>
                getOperands call ! k = Val (next_value m) hole_type))"
proof -
  from mapped_lowering_facts [OF at kind mp run] obtain call where
    call: "op_at m' (shifted (fi, bi, oi)) = Some call"
      "opKind call = CallOp ''xla.cpu.custom_call''"
    and blk: "block_at m' fi 0 = alloca_op (Val (next_value m) hole_type)
          # (if bi = 0 then replace_at oi [call] (block_at m fi 0) else block_at m fi 0)"
    and holes: "\<forall>k < length (getOperands call).
           k \<notin> unat ` set (getArgsToTargetArgs mapping) \<longrightarrow>
           k \<notin> (\<lambda>t. unat (getNumArgs mapping + t)) ` set (getResultsToTargetResults mapping) \<longrightarrow>
           getOperands call ! k = Val (next_value m) hole_type"
    and nv: "next_value m' = Suc (next_value m)"
    by blast
  have hole: "is_hole_alloca (alloca_op (Val (next_value m) hole_type))"
    by (simp add: is_hole_alloca_def alloca_op_def)
  have nc: "\<not> is_hole_alloca call"
    using call(2) by (simp add: is_hole_alloca_def)
  have same: "filter is_hole_alloca (replace_at oi [call] (block_at m fi 0))
      = filter is_hole_alloca (block_at m fi 0)" if "bi = 0"
  proof -
    have "oi < length (block_at m fi 0)"
      using op_at_block_at [OF at] that by simp
    moreover have "\<not> is_hole_alloca (block_at m fi 0 ! oi)"
      using op_at_block_at [OF at] that kind by (simp add: is_hole_alloca_def)
    ultimately show ?thesis
      using nc by (rule filter_replace_at)
  qed
  have "length (filter is_hole_alloca (block_at m' fi 0))
           = Suc (length (filter is_hole_alloca (block_at m fi 0)))"
    "hd (block_at m' fi 0) = alloca_op (Val (next_value m) hole_type)"
    using blk hole same by simp_all
  then show ?thesis
    using nv call(1) holes by blast
qed

theorem hole_alloca_per_lowering_witness:
  "applyPatterns (single_op_module mapped_custom_call) (0, 0, 0) = Inr (success, mapped_lowered)
   \<and> length (filter is_hole_alloca (block_at (single_op_module mapped_custom_call) 0 0)) = 0
   \<and> length (filter is_hole_alloca (block_at mapped_lowered 0 0)) = 1
   \<and> hd (block_at mapped_lowered 0 0) = alloca_op (Val 2 hole_type)
   \<and> next_value mapped_lowered = 3"
proof -
  let ?mp = "\<lparr>getNumArgs = 3, getNumResults = 0, getArgsToTargetArgs = [2, 0],
             getResultsToTargetResults = []\<rparr>"
  have at: "op_at (single_op_module mapped_custom_call) (0, 0, 0) = Some mapped_custom_call"
    by (simp add: op_at_def single_op_module_def)
  have kind: "opKind mapped_custom_call = CustomCallOp"
    and mp: "getTargetArgMapping mapped_custom_call = Some ?mp"
    by (simp_all add: getAttr_def getTargetArgMapping_def mapped_custom_call_def)
  have none: "filter is_hole_alloca (block_at (single_op_module mapped_custom_call) 0 0) = []"
    by (simp add: block_at_def single_op_module_def is_hole_alloca_def mapped_custom_call_def)
  show ?thesis
    using hole_alloca_per_lowering [OF at kind mp run_mapped] run_mapped none
    by (simp add: single_op_module_def)
qed

text \<open>
  The claim as stated fails on a function with two such custom calls: once both are lowered,
  its entry block starts with two hole allocations, and each call uses its own.
\<close>

theorem hole_alloca_not_cached_counterexample:
  "applyPatterns two_custom_calls_module (0, 0, 0) = Inr (success, two_custom_calls_after_first)
   \<and> applyPatterns two_custom_calls_after_first (0, 0, 2) = Inr (success, two_custom_calls_lowered)
   \<and> length (funcs two_custom_calls_lowered) = 1
   \<and> filter is_hole_alloca (block_at two_custom_calls_lowered 0 0)
       = [alloca_op (Val 3 hole_type), alloca_op (Val 2 hole_type)]
   \<and> map (\<lambda>call. getOperands call ! 1) (drop 2 (block_at two_custom_calls_lowered 0 0))
       = [Val 2 hole_type, Val 3 hole_type]"
  using run_two_first run_two_second
  by (simp add: block_at_def two_custom_calls_lowered_def is_hole_alloca_def alloca_op_def
      custom_call_op_def)

subsection \<open>Attributes of the lowered custom call\<close>



subsection \<open>Operands of the lowered all-reduce\<close>




subsection \<open>Attributes of the lowered all-reduce\<close>

text \<open>
  Claim C4. The call made for an all-reduce first gets \<open>use_global_device_ids\<close> as 32-bit
  integer 0 and \<open>op_id\<close> as 64-bit integer 0, then every attribute of the source operation:
  an attribute of the source operation is on the call with its value, also under one of the
  two default names, and a default stays only where the source operation has no attribute of
  that name. So no \<open>op_id\<close> on the source gives \<open>op_id = 0\<close>, and \<open>op_id = 7\<close> gives 7.
\<close>

theorem all_reduce_attributes:
  assumes at: "op_at m (fi, bi, oi) = Some op"
    and kind: "opKind op = AllReduceOp"
    and names: "distinct (map fst (getAttrs op))"
    and run: "applyPatterns m (fi, bi, oi) = Inr (success, m')"
  shows "\<exists>created call.
       block_at m' fi bi = take oi (block_at m fi bi) @ created @ [call]
          @ drop (Suc oi) (block_at m fi bi)
     \<and> opKind call = CallOp ''xla.cpu.all_reduce''
     \<and> (\<forall>name. getAttr call name
           = (case getAttr op name of
                Some v \<Rightarrow> Some v
              | None \<Rightarrow> map_of all_reduce_defaults name))"
proof -
  from all_reduce_success [OF at kind run] obtain created new_operands where
    blk: "block_at m' fi bi = take oi (block_at m fi bi) @ created
          @ [all_reduce_call ''xla.cpu.all_reduce'' new_operands op]
          @ drop (Suc oi) (block_at m fi bi)"
    by blast
  show ?thesis
    using blk all_reduce_call_attr [OF names]
    by (intro exI [of _ created] exI [of _ "all_reduce_call ''xla.cpu.all_reduce'' new_operands op"])
       (simp add: all_reduce_call_fields)
qed

theorem all_reduce_attributes_witness:
  "applyPatterns (single_op_module strided_all_reduce) (0, 0, 0) = Inr (success, strided_lowered)
   \<and> getAttr strided_all_reduce ''op_id'' = Some (I64IntegerAttr 7)
   \<and> applyPatterns (single_op_module plain_all_reduce) (0, 0, 0)
       = Inr (success, plain_all_reduce_lowered)
   \<and> getAttr plain_all_reduce ''op_id'' = None
   \<and> (\<exists>call7 call0.
         block_at strided_lowered 0 0
           = [alloc_op (Val 2 f32_4), copy_op (Val 1 strided_f32_4) (Val 2 f32_4), call7]
       \<and> getAttr call7 ''op_id'' = Some (I64IntegerAttr 7)
       \<and> getAttr call7 ''use_global_device_ids'' = Some (I32IntegerAttr 0)
       \<and> getAttr call7 ''reduction_kind'' = Some (OtherAttr ''sum'')
       \<and> block_at plain_all_reduce_lowered 0 0 = [call0]
       \<and> getAttr call0 ''op_id'' = Some (I64IntegerAttr 0)
       \<and> getAttr call0 ''use_global_device_ids'' = Some (I32IntegerAttr 0))"
proof -
  have at7: "op_at (single_op_module strided_all_reduce) (0, 0, 0) = Some strided_all_reduce"
    and at0: "op_at (single_op_module plain_all_reduce) (0, 0, 0) = Some plain_all_reduce"
    by (simp_all add: op_at_def single_op_module_def)
  have kind7: "opKind strided_all_reduce = AllReduceOp"
    and names7: "distinct (map fst (getAttrs strided_all_reduce))"
    and attrs7: "getAttr strided_all_reduce ''op_id'' = Some (I64IntegerAttr 7)"
      "getAttr strided_all_reduce ''use_global_device_ids'' = None"
      "getAttr strided_all_reduce ''reduction_kind'' = Some (OtherAttr ''sum'')"
    by (simp_all add: strided_all_reduce_def getAttr_def)
  have kind0: "opKind plain_all_reduce = AllReduceOp"
    and names0: "distinct (map fst (getAttrs plain_all_reduce))"
    and attrs0: "getAttr plain_all_reduce ''op_id'' = None"
      "getAttr plain_all_reduce ''use_global_device_ids'' = None"
    by (simp_all add: plain_all_reduce_def getAttr_def)
  from all_reduce_attributes [OF at7 kind7 names7 run_strided] obtain created7 call7 where
    b7: "block_at strided_lowered 0 0 = created7 @ [call7]"
    and a7: "\<forall>name. getAttr call7 name
           = (case getAttr strided_all_reduce name of
                Some v \<Rightarrow> Some v
              | None \<Rightarrow> map_of all_reduce_defaults name)"
    by (auto simp: block_at_def single_op_module_def)
  from all_reduce_attributes [OF at0 kind0 names0 run_plain_all_reduce] obtain created0 call0 where
    b0: "block_at plain_all_reduce_lowered 0 0 = created0 @ [call0]"
    and a0: "\<forall>name. getAttr call0 name
           = (case getAttr plain_all_reduce name of
                Some v \<Rightarrow> Some v
              | None \<Rightarrow> map_of all_reduce_defaults name)"
    by (auto simp: block_at_def single_op_module_def)
  have c7: "created7 = [alloc_op (Val 2 f32_4), copy_op (Val 1 strided_f32_4) (Val 2 f32_4)]"
    using b7 by (simp add: block_at_def strided_lowered_def append_eq_Cons_conv)
  have c0: "created0 = []"
    using b0 by (simp add: block_at_def plain_all_reduce_lowered_def append_eq_Cons_conv)
  show ?thesis
    using run_strided run_plain_all_reduce b7 b0 c7 c0 attrs7 attrs0
      a7 [rule_format, of "''op_id''"] a7 [rule_format, of "''use_global_device_ids''"]
      a7 [rule_format, of "''reduction_kind''"]
      a0 [rule_format, of "''op_id''"] a0 [rule_format, of "''use_global_device_ids''"]
    by (simp add: all_reduce_defaults_def)
qed

subsection \<open>The cast of the all-reduce operands\<close>

text \<open>
  Claim C9. Past its guard on the first operand the all-reduce pattern casts the type of
  every operand to a memref type. When all operands are memrefs the loop returns and the
  failing cast is never reached; when the first operand is a memref and a later one is not,
  the guard passes and the cast fails.
\<close>

theorem all_reduce_cast:
  assumes at: "op_at m (fi, bi, oi) = Some op"
    and kind: "opKind op = AllReduceOp"
    and first: "getOperands op = v # vs" "isa_MemRefType (getType v)"
  shows "(list_all (\<lambda>x. isa_MemRefType (getType x)) vs \<longrightarrow>
            (\<exists>r. normalize_operands (getOperands op) (next_value m) = Inr r)
          \<and> applyPatterns m (fi, bi, oi) \<noteq> Inl BadCast)
     \<and> (\<not> list_all (\<lambda>x. isa_MemRefType (getType x)) vs \<longrightarrow>
            applyPatterns m (fi, bi, oi) = Inl BadCast)"
proof (intro conjI impI)
  assume all: "list_all (\<lambda>x. isa_MemRefType (getType x)) vs"
  then have "list_all (\<lambda>x. isa_MemRefType (getType x)) (getOperands op)"
    using first by simp
  from normalize_operands_total [OF this, of "next_value m"]
  show total: "\<exists>r. normalize_operands (getOperands op) (next_value m) = Inr r" .
  then show "applyPatterns m (fi, bi, oi) \<noteq> Inl BadCast"
    using at kind first
    by (auto simp: applyPatterns_def AllReduceLowering_def eraseOp_def Let_def
             split: prod.splits if_splits)
next
  assume "\<not> list_all (\<lambda>x. isa_MemRefType (getType x)) vs"
  then have "\<not> list_all (\<lambda>x. isa_MemRefType (getType x)) (getOperands op)"
    using first by simp
  from normalize_operands_BadCast [OF this, of "next_value m"]
  show "applyPatterns m (fi, bi, oi) = Inl BadCast"
    using at kind first by (simp add: applyPatterns_def AllReduceLowering_def)
qed

theorem all_reduce_cast_witness:
  "applyPatterns (single_op_module mixed_all_reduce) (0, 0, 0) = Inl BadCast
   \<and> isa_MemRefType (getType (hd (getOperands mixed_all_reduce)))
   \<and> (\<exists>r. normalize_operands (getOperands strided_all_reduce) 2 = Inr r)
   \<and> applyPatterns (single_op_module strided_all_reduce) (0, 0, 0) \<noteq> Inl BadCast"
proof -
  have at1: "op_at (single_op_module mixed_all_reduce) (0, 0, 0) = Some mixed_all_reduce"
    and at2: "op_at (single_op_module strided_all_reduce) (0, 0, 0) = Some strided_all_reduce"
    by (simp_all add: op_at_def single_op_module_def)
  have k1: "opKind mixed_all_reduce = AllReduceOp"
    and f1: "getOperands mixed_all_reduce = Val 0 f32_8 # [Val 1 (ScalarType F32)]"
      "isa_MemRefType (getType (Val 0 f32_8))"
    by (simp_all add: mixed_all_reduce_def f32_8_def)
  have k2: "opKind strided_all_reduce = AllReduceOp"
    and f2: "getOperands strided_all_reduce = Val 0 f32_8 # [Val 1 strided_f32_4]"
      "isa_MemRefType (getType (Val 0 f32_8))"
    by (simp_all add: strided_all_reduce_def f32_8_def)
  show ?thesis
    using all_reduce_cast [OF at1 k1 f1] all_reduce_cast [OF at2 k2 f2] f1 f2
    by (simp add: single_op_module_def strided_f32_4_def)
qed

subsection \<open>Termination of the pass\<close>

text \<open>
  Claim C8. Every successful rewrite of one of the six patterns replaces a matchable
  operation by operations that no pattern matches (calls, allocations, copies), so the number
  of matchable operations in the module drops by exactly one. Hence no sequence of rewrites,
  in whatever order the driver picks the operations, is infinite, and the module the pass
  returns is a fixed point: no pattern matches in it any more.
\<close>

theorem rewrite_decreases_matchable:
  "(\<forall>m p m'. applyPatterns m p = Inr (success, m') \<longrightarrow>
       Suc (count_matchable m') = count_matchable m)
   \<and> wf {(m', m). \<exists>p. applyPatterns m p = Inr (success, m')}
   \<and> (\<forall>m m'. runOnOperation m = Inr m' \<longrightarrow>
         (\<forall>p m''. applyPatterns m' p \<noteq> Inr (success, m'')))"
proof (intro conjI allI impI)
  fix m p m'
  assume "applyPatterns m p = Inr (success, m')"
  then show "Suc (count_matchable m') = count_matchable m"
    by (rule applyPatterns_decreases)
next
  have "count_matchable m' < count_matchable m"
    if "applyPatterns m p = Inr (success, m')" for m p m'
    using applyPatterns_decreases [OF that] by simp
  then have "{(m', m). \<exists>p. applyPatterns m p = Inr (success, m')} \<subseteq> measure count_matchable"
    by auto
  then show "wf {(m', m). \<exists>p. applyPatterns m p = Inr (success, m')}"
    by (rule wf_subset [OF wf_measure])
next
  fix m m' p m''
  assume "runOnOperation m = Inr m'"
  then have "applyPatternsGreedily m = Inr m'"
    by (simp add: runOnOperation_def)
  then have "first_match m' (positions m') = Inr None"
    by (rule applyPatternsGreedily_fixed_point)
  then show "applyPatterns m' p \<noteq> Inr (success, m'')"
    by (rule no_match_left)
qed

theorem rewrite_decreases_matchable_witness:
  "applyPatterns infeed_module (0, 0, 0) = Inr (success, infeed_lowered)
   \<and> count_matchable infeed_module = 1
   \<and> count_matchable infeed_lowered = 0
   \<and> runOnOperation infeed_module = Inr infeed_lowered
   \<and> applyPatterns infeed_lowered (0, 0, 0) \<noteq> Inr (success, infeed_lowered)"
proof -
  have c: "count_matchable infeed_lowered = 0"
    by (simp add: count_matchable_def all_operations_def infeed_lowered_def matchable_def)
  have r: "runOnOperation infeed_module = Inr infeed_lowered"
    using run_infeed_greedily by (simp add: runOnOperation_def)
  have "Suc (count_matchable infeed_lowered) = count_matchable infeed_module"
    using rewrite_decreases_matchable run_infeed by blast
  moreover have "applyPatterns infeed_lowered (0, 0, 0) \<noteq> Inr (success, infeed_lowered)"
    using rewrite_decreases_matchable r by blast
  ultimately show ?thesis
    using c run_infeed r by simp
qed

end
